theory Spec2Isabelle
  imports Complex_Main
begin

section \<open>Python strings and lists\<close>

text \<open>
  Strings are lists of \<^typ>\<open>char\<close>. The character classes of Python's \<open>str\<close> methods and of
  the \<open>re\<close> module are modelled on the ASCII range: \<open>str.isspace\<close> and the regular expression
  class \<open>\s\<close> hold for the codes 9 to 13, 28 to 31 and 32; \<open>\w\<close> for letters, digits and the
  underscore.
\<close>

definition is_space :: "char \<Rightarrow> bool" where
  "is_space c = (let n = of_char c :: nat in (9 \<le> n \<and> n \<le> 13) \<or> (28 \<le> n \<and> n \<le> 32))"

definition is_upper :: "char \<Rightarrow> bool" where
  "is_upper c = (let n = of_char c :: nat in 65 \<le> n \<and> n \<le> 90)"

definition is_lower :: "char \<Rightarrow> bool" where
  "is_lower c = (let n = of_char c :: nat in 97 \<le> n \<and> n \<le> 122)"

definition is_digit :: "char \<Rightarrow> bool" where
  "is_digit c = (let n = of_char c :: nat in 48 \<le> n \<and> n \<le> 57)"

definition is_word_char :: "char \<Rightarrow> bool" where
  "is_word_char c = (is_upper c \<or> is_lower c \<or> is_digit c \<or> c = CHR ''_'')"

text \<open>\<open>s.strip()\<close>: leading and trailing whitespace removed.\<close>

definition lstrip :: "string \<Rightarrow> string" where
  "lstrip s = dropWhile is_space s"

definition rstrip :: "string \<Rightarrow> string" where
  "rstrip s = rev (dropWhile is_space (rev s))"

definition strip :: "string \<Rightarrow> string" where
  "strip s = rstrip (lstrip s)"

text \<open>
  \<open>s.split()\<close> with no argument: the maximal runs of non-whitespace characters, in order.
  The first argument is the word being read, reversed.
\<close>

fun split_acc :: "string \<Rightarrow> string \<Rightarrow> string list" where
  "split_acc cur [] = (if cur = [] then [] else [rev cur])"
| "split_acc cur (c # cs) =
     (if is_space c
      then (if cur = [] then split_acc [] cs else rev cur # split_acc [] cs)
      else split_acc (c # cur) cs)"

definition split_ws :: "string \<Rightarrow> string list" where
  "split_ws s = split_acc [] s"

text \<open>\<open>' '.join(xs)\<close>.\<close>

fun join_space :: "string list \<Rightarrow> string" where
  "join_space [] = []"
| "join_space [x] = x"
| "join_space (x # y # ys) = x @ CHR '' '' # join_space (y # ys)"

text \<open>
  \<open>xs[i:j]\<close> for Python integers \<open>i\<close> and \<open>j\<close>: a negative bound counts from the end, and
  both bounds are clipped to the list.
\<close>

definition slice_bound :: "int \<Rightarrow> int \<Rightarrow> int" where
  "slice_bound i n = (if i < 0 then max (i + n) 0 else min i n)"

definition py_slice :: "'a list \<Rightarrow> int \<Rightarrow> int \<Rightarrow> 'a list" where
  "py_slice xs i j =
     (let n = int (length xs); a = slice_bound i n; b = slice_bound j n
      in take (nat (b - a)) (drop (nat a) xs))"

text \<open>\<open>str(n)\<close> for an integer.\<close>

fun str_nat :: "nat \<Rightarrow> string" where
  "str_nat n =
     (if n < 10 then [char_of (48 + n)]
      else str_nat (n div 10) @ [char_of (48 + n mod 10)])"

declare str_nat.simps [simp del]

definition str_int :: "int \<Rightarrow> string" where
  "str_int i = (if i < 0 then CHR ''-'' # str_nat (nat (- i)) else str_nat (nat i))"

text \<open>\<open>int(x)\<close> for a number \<open>x\<close>: truncation towards zero.\<close>

definition py_int :: "rat \<Rightarrow> int" where
  "py_int x = (if 0 \<le> x then \<lfloor>x\<rfloor> else \<lceil>x\<rceil>)"

section \<open>While loops\<close>

text \<open>
  \<open>while b(s): s = c(s)\<close> on a loop state \<open>s\<close>. The result is \<open>None\<close> when the loop
  never exits.
\<close>

partial_function (option) while_loop :: "('s \<Rightarrow> bool) \<Rightarrow> ('s \<Rightarrow> 's) \<Rightarrow> 's \<Rightarrow> 's option" where
  "while_loop b c s = (if b s then while_loop b c (c s) else Some s)"

declare while_loop.simps [code]

section \<open>The chunker (utils/chunker.py)\<close>

record ContentChunk =
  id' :: string
  content_id :: string
  chunk_text :: string
  chunk_index :: int
  token_count :: int
  section_title :: "string option"
  hierarchy_path :: string
  overlap_with_next :: int
  created_at :: string
  url :: string

text \<open>
  \<open>TextChunker\<close>: the two settings read from \<open>Config\<close>. \<open>CHUNK_OVERLAP\<close> is a Python
  float; it is modelled as a rational number, and its products as exact.
\<close>

record TextChunker =
  chunk_size :: int
  overlap :: rat

text \<open>
  What the code takes from the standard library: \<open>hashlib.md5(b).hexdigest()\<close>, the reading
  of \<open>datetime.utcnow().isoformat()\<close> made while chunk number \<open>k\<close> is built, and
  \<open>str(uuid.uuid5(uuid.NAMESPACE_DNS, name))\<close>.
\<close>

record stdlib =
  md5_hexdigest :: "string \<Rightarrow> string"
  utcnow_isoformat :: "int \<Rightarrow> string"
  uuid5_dns :: "string \<Rightarrow> string"

subsection \<open>\<open>_split_into_sentences\<close>\<close>

text \<open>
  The pattern \<open>(?<!\w\.\w.)(?<![A-Z][a-z]\.)(?<=\.|\?|\!)\s\<close> matches one whitespace character
  \<open>c\<close>. \<open>pre\<close> is the text before \<open>c\<close>, reversed, so that \<open>pre ! 0\<close> is the character just
  before \<open>c\<close>. A lookbehind that needs more characters than the text has before \<open>c\<close> does not
  match.
\<close>

definition lookbehind_initials :: "string \<Rightarrow> bool" where
  "lookbehind_initials pre =
     (case pre of
        c1 # c2 # c3 # c4 # _ \<Rightarrow>
          is_word_char c4 \<and> c3 = CHR ''.'' \<and> is_word_char c2 \<and> c1 \<noteq> CHR 0x0A
      | _ \<Rightarrow> False)"

definition lookbehind_abbrev :: "string \<Rightarrow> bool" where
  "lookbehind_abbrev pre =
     (case pre of
        c1 # c2 # c3 # _ \<Rightarrow> is_upper c3 \<and> is_lower c2 \<and> c1 = CHR ''.''
      | _ \<Rightarrow> False)"

definition lookbehind_terminator :: "string \<Rightarrow> bool" where
  "lookbehind_terminator pre =
     (case pre of
        c1 # _ \<Rightarrow> c1 = CHR ''.'' \<or> c1 = CHR ''?'' \<or> c1 = CHR ''!''
      | _ \<Rightarrow> False)"

definition sentence_pattern :: "string \<Rightarrow> char \<Rightarrow> bool" where
  "sentence_pattern pre c =
     (\<not> lookbehind_initials pre \<and> \<not> lookbehind_abbrev pre \<and> lookbehind_terminator pre
      \<and> is_space c)"

text \<open>
  \<open>re.split(sentence_pattern, text)\<close>: the pieces of the text between the matches. \<open>cur\<close> is
  the piece being read, reversed.
\<close>

fun re_split :: "string \<Rightarrow> string \<Rightarrow> string \<Rightarrow> string list" where
  "re_split pre cur [] = [rev cur]"
| "re_split pre cur (c # cs) =
     (if sentence_pattern pre c then rev cur # re_split (c # pre) [] cs
      else re_split (c # pre) (c # cur) cs)"

definition split_into_sentences :: "string \<Rightarrow> string list" where
  "split_into_sentences text =
     filter (\<lambda>sentence. sentence \<noteq> []) (map strip (re_split [] [] text))"

subsection \<open>\<open>chunk_text\<close>\<close>

record chunk_state =
  current_start :: int
  next_index :: int
  chunks :: "ContentChunk list"

definition chunk_id :: "stdlib \<Rightarrow> string \<Rightarrow> string \<Rightarrow> int \<Rightarrow> string" where
  "chunk_id l cid txt k =
     cid @ ''_chunk_'' @ take 8 (md5_hexdigest l txt) @ ''_'' @ str_int k"

text \<open>One pass through the body of the \<open>while\<close> loop of \<open>chunk_text\<close>.\<close>

definition chunk_text_body ::
  "stdlib \<Rightarrow> TextChunker \<Rightarrow> string list \<Rightarrow> int \<Rightarrow> string \<Rightarrow> string \<Rightarrow> string option \<Rightarrow> string
   \<Rightarrow> chunk_state \<Rightarrow> chunk_state" where
  "chunk_text_body l self sentences overlap_sentences cid u title hpath st =
     (let n = int (length sentences);
          current_end = min (current_start st + chunk_size self) n;
          chunk_sentences = py_slice sentences (current_start st) current_end;
          txt = strip (join_space chunk_sentences)
      in if length txt = 0 then st\<lparr>current_start := current_end\<rparr>
         else
           let own = (if current_end < n then min overlap_sentences (n - current_end) else 0);
               chunk = \<lparr>id' = chunk_id l cid txt (next_index st),
                        content_id = cid,
                        chunk_text = txt,
                        chunk_index = next_index st,
                        token_count = int (length (split_ws txt)),
                        section_title = title,
                        hierarchy_path = hpath,
                        overlap_with_next = own,
                        created_at = utcnow_isoformat l (next_index st),
                        url = u\<rparr>
           in \<lparr>current_start =
                  (if current_end < n then current_end - overlap_sentences else current_end),
                next_index = next_index st + 1,
                chunks = chunks st @ [chunk]\<rparr>)"

definition overlap_sentences_of :: "TextChunker \<Rightarrow> string list \<Rightarrow> int" where
  "overlap_sentences_of self sentences = py_int (of_nat (length sentences) * overlap self)"

definition chunk_sentences_loop ::
  "stdlib \<Rightarrow> TextChunker \<Rightarrow> string list \<Rightarrow> string \<Rightarrow> string \<Rightarrow> string option \<Rightarrow> string
   \<Rightarrow> chunk_state option" where
  "chunk_sentences_loop l self sentences cid u title hpath =
     while_loop (\<lambda>st. current_start st < int (length sentences))
       (chunk_text_body l self sentences (overlap_sentences_of self sentences) cid u title hpath)
       \<lparr>current_start = 0, next_index = 0, chunks = []\<rparr>"

text \<open>\<open>chunk_text\<close> itself. \<open>None\<close>: the call does not return.\<close>

definition TextChunker_chunk_text ::
  "stdlib \<Rightarrow> TextChunker \<Rightarrow> string \<Rightarrow> string \<Rightarrow> string \<Rightarrow> string option \<Rightarrow> string
   \<Rightarrow> ContentChunk list option" where
  "TextChunker_chunk_text l self text cid u title hpath =
     (if text = [] \<or> length (strip text) = 0 then Some []
      else
        let sentences = split_into_sentences text
        in if sentences = [] then Some []
           else map_option chunks (chunk_sentences_loop l self sentences cid u title hpath))"

subsection \<open>\<open>chunk_with_sliding_window\<close>\<close>

record window_state =
  start_idx :: int
  window_index :: int
  window_chunks :: "ContentChunk list"

text \<open>One pass through the body of the \<open>while\<close> loop of \<open>chunk_with_sliding_window\<close>.\<close>

definition sliding_window_body ::
  "stdlib \<Rightarrow> string list \<Rightarrow> int \<Rightarrow> int \<Rightarrow> string \<Rightarrow> string \<Rightarrow> string option \<Rightarrow> string
   \<Rightarrow> window_state \<Rightarrow> window_state" where
  "sliding_window_body l words words_per_chunk overlap_words cid u title hpath st =
     (let n = int (length words);
          end_idx = min (start_idx st + words_per_chunk) n;
          chunk_words = py_slice words (start_idx st) end_idx;
          txt = join_space chunk_words
      in if length (strip txt) = 0 then st\<lparr>start_idx := end_idx\<rparr>
         else
           let own = (if end_idx < n then min overlap_words (n - end_idx) else 0);
               chunk = \<lparr>id' = chunk_id l cid txt (window_index st),
                        content_id = cid,
                        chunk_text = txt,
                        chunk_index = window_index st,
                        token_count = int (length chunk_words),
                        section_title = title,
                        hierarchy_path = hpath,
                        overlap_with_next = own,
                        created_at = utcnow_isoformat l (window_index st),
                        url = u\<rparr>
           in \<lparr>start_idx = (if end_idx < n then end_idx - overlap_words else end_idx),
                window_index = window_index st + 1,
                window_chunks = window_chunks st @ [chunk]\<rparr>)"

definition chunk_with_sliding_window ::
  "stdlib \<Rightarrow> TextChunker \<Rightarrow> string \<Rightarrow> string \<Rightarrow> string \<Rightarrow> string option \<Rightarrow> string
   \<Rightarrow> ContentChunk list option" where
  "chunk_with_sliding_window l self text cid u title hpath =
     (if text = [] \<or> length (strip text) = 0 then Some []
      else
        let words = split_ws text
        in if length words = 0 then Some []
           else
             let words_per_chunk = chunk_size self;
                 overlap_words = py_int (of_int words_per_chunk * overlap self)
             in map_option window_chunks
                  (while_loop (\<lambda>st. start_idx st < int (length words))
                     (sliding_window_body l words words_per_chunk overlap_words cid u title hpath)
                     \<lparr>start_idx = 0, window_index = 0, window_chunks = []\<rparr>))"

text \<open>
  What every chunk built for a caller's \<open>content_id\<close>, \<open>url\<close>, \<open>section_title\<close> and
  \<open>hierarchy_path\<close> has: a text that is not blank, its number of words as token count, and
  the caller's four values.
\<close>

abbreviation chunk_ok :: "string \<Rightarrow> string \<Rightarrow> string option \<Rightarrow> string \<Rightarrow> ContentChunk \<Rightarrow> bool" where
  "chunk_ok cid u title hpath c \<equiv>
     strip (chunk_text c) \<noteq> []
     \<and> token_count c = int (length (split_ws (chunk_text c)))
     \<and> 1 \<le> token_count c
     \<and> content_id c = cid \<and> url c = u \<and> section_title c = title \<and> hierarchy_path c = hpath"

section \<open>The embedder (utils/embedder.py)\<close>

text \<open>
  Exceptions are values. \<open>ProviderError\<close> stands for whatever an external client raises, with
  its message.
\<close>

datatype exn = ValueError string | ProviderError string | HTTPException int string

record Embedder =
  model_name :: string
  max_batch_size :: int

definition Embedder_init :: "string option \<Rightarrow> exn + Embedder" where
  "Embedder_init api_key =
     (if api_key = None \<or> api_key = Some []
      then Inl (ValueError ''COHERE_API_KEY environment variable is required'')
      else Inr \<lparr>model_name = ''embed-multilingual-v2.0'', max_batch_size = 96\<rparr>)"

text \<open>
  \<open>client.embed(texts=..., model=...)\<close>: the provider is outside the program. A call takes
  the provider's state \<open>'p\<close>, the model name and the texts; it raises or returns
  \<open>response.embeddings\<close>, and leaves the provider in a new state (so that a retry can succeed
  where the first call failed). \<open>'v\<close> is the type of one embedding.
\<close>

type_synonym ('p, 'v) embed_api = "'p \<Rightarrow> string \<Rightarrow> string list \<Rightarrow> (exn + 'v list) \<times> 'p"

text \<open>
  The inner \<open>for j, text in enumerate(batch)\<close> loop of \<open>embed_texts\<close>; \<open>acc\<close> is
  \<open>batch_fallback\<close>, with \<open>None\<close> for a text that failed again.
\<close>

fun fallback_loop ::
  "('p, 'v) embed_api \<Rightarrow> Embedder \<Rightarrow> string list \<Rightarrow> 'v option list \<Rightarrow> 'p
   \<Rightarrow> 'v option list \<times> 'p" where
  "fallback_loop co self [] acc p = (acc, p)"
| "fallback_loop co self (t # ts) acc p =
     (case co p (model_name self) [t] of
        (Inr single, p') \<Rightarrow> fallback_loop co self ts (acc @ map Some single) p'
      | (Inl single_e, p') \<Rightarrow> fallback_loop co self ts (acc @ [None]) p')"

text \<open>
  The outer \<open>for i in range(0, len(texts), self.max_batch_size)\<close> loop, entered with a
  positive step; \<open>acc\<close> is \<open>all_embeddings\<close>.
\<close>

function batch_loop ::
  "('p, 'v) embed_api \<Rightarrow> Embedder \<Rightarrow> string list \<Rightarrow> int \<Rightarrow> 'v list \<Rightarrow> 'p \<Rightarrow> 'v list \<times> 'p" where
  "batch_loop co self texts i acc p =
     (if 0 < max_batch_size self \<and> i < int (length texts)
      then
        let batch = py_slice texts i (i + max_batch_size self)
        in case co p (model_name self) batch of
             (Inr batch_embeddings, p') \<Rightarrow>
               batch_loop co self texts (i + max_batch_size self) (acc @ batch_embeddings) p'
           | (Inl e, p') \<Rightarrow>
               (case fallback_loop co self batch [] p' of
                  (batch_fallback, p'') \<Rightarrow>
                    batch_loop co self texts (i + max_batch_size self)
                      (acc @ List.map_filter (\<lambda>emb. emb) batch_fallback) p'')
      else (acc, p))"
  by pat_completeness auto
termination
  by (relation "measure (\<lambda>(co, self, texts, i, acc, p). nat (int (length texts) - i))") auto

declare batch_loop.simps [simp del]

text \<open>
  \<open>embed_texts\<close>. \<open>range\<close> raises \<open>ValueError\<close> for a step of zero and is empty for a
  negative one.
\<close>

definition embed_texts ::
  "('p, 'v) embed_api \<Rightarrow> Embedder \<Rightarrow> string list \<Rightarrow> 'p \<Rightarrow> (exn + 'v list option) \<times> 'p" where
  "embed_texts co self texts p =
     (if texts = [] then (Inr None, p)
      else if max_batch_size self = 0 then (Inl (ValueError ''range() arg 3 must not be zero''), p)
      else if max_batch_size self < 0 then (Inr (Some []), p)
      else case batch_loop co self texts 0 [] p of
             (all_embeddings, p') \<Rightarrow> (Inr (Some all_embeddings), p'))"


record model_info =
  info_model_name :: string
  info_dimensions :: int
  info_max_batch_size :: int

definition get_model_info :: "Embedder \<Rightarrow> model_info" where
  "get_model_info self =
     \<lparr>info_model_name = model_name self,
      info_dimensions = 768,
      info_max_batch_size = max_batch_size self\<rparr>"

section \<open>The vector store (utils/qdrant_storage.py)\<close>

text \<open>A value of a payload or of a row of the conversation log.\<close>

datatype pyval = PyNone | PyStr string | PyInt int

type_synonym pydict = "(string \<times> pyval) list"

text \<open>\<open>models.PointStruct(id=..., vector=..., payload=...)\<close>.\<close>

record 'v PointStruct =
  point_id :: string
  vector :: 'v
  payload :: pydict

text \<open>
  The Qdrant client, with the one collection the program uses. \<open>points\<close> are the stored
  points by id, \<open>upsert_requests\<close> the upsert calls received so far, in order, and
  \<open>rejects\<close> tells for which requests the client raises (a vector of the wrong size, a
  connection lost). An upsert that is accepted stores every point of the request under its
  id, replacing a point stored under the same id.
\<close>

record 'v QdrantStorage =
  points :: "string \<rightharpoonup> 'v PointStruct"
  upsert_requests :: "'v PointStruct list list"
  rejects :: "'v PointStruct list \<Rightarrow> bool"

definition client_upsert ::
  "'v QdrantStorage \<Rightarrow> 'v PointStruct list \<Rightarrow> exn option \<times> 'v QdrantStorage" where
  "client_upsert self pts =
     (let received = self\<lparr>upsert_requests := upsert_requests self @ [pts]\<rparr>
      in if rejects self pts then (Some (ProviderError ''upsert failed''), received)
         else (None, received\<lparr>points := fold (\<lambda>pt m. m(point_id pt \<mapsto> pt)) pts (points self)\<rparr>))"

definition chunk_payload :: "ContentChunk \<Rightarrow> pydict" where
  "chunk_payload chunk =
     [(''url'', PyStr (url chunk)),
      (''section'', case section_title chunk of None \<Rightarrow> PyNone | Some t \<Rightarrow> PyStr t),
      (''hierarchy_path'', PyStr (hierarchy_path chunk)),
      (''chunk_index'', PyInt (chunk_index chunk)),
      (''token_count'', PyInt (token_count chunk)),
      (''content'', PyStr (chunk_text chunk)),
      (''created_at'', PyStr (created_at chunk)),
      (''content_id'', PyStr (content_id chunk))]"

text \<open>
  \<open>save_chunk_to_qdrant\<close>: the result is the exception that the call raises, if any, and the
  store after the call.
\<close>

definition save_chunk_to_qdrant ::
  "stdlib \<Rightarrow> 'v QdrantStorage \<Rightarrow> ContentChunk \<Rightarrow> 'v \<Rightarrow> exn option \<times> 'v QdrantStorage" where
  "save_chunk_to_qdrant l self chunk embedding =
     client_upsert self
       [\<lparr>point_id = uuid5_dns l (id' chunk), vector = embedding, payload = chunk_payload chunk\<rparr>]"

definition save_chunks_batch ::
  "stdlib \<Rightarrow> 'v QdrantStorage \<Rightarrow> ContentChunk list \<Rightarrow> 'v list
   \<Rightarrow> exn option \<times> 'v QdrantStorage" where
  "save_chunks_batch l self chunk_list embeddings =
     (if length chunk_list \<noteq> length embeddings
      then (Some (ValueError (''Number of chunks ('' @ str_int (int (length chunk_list))
                @ '') must match number of embeddings ('' @ str_int (int (length embeddings)) @ '')'')),
            self)
      else client_upsert self
             (map (\<lambda>(chunk, embedding).
                     \<lparr>point_id = uuid5_dns l (id' chunk), vector = embedding,
                      payload = chunk_payload chunk\<rparr>)
                (zip chunk_list embeddings)))"





section \<open>The pipeline (main.py)\<close>

record ('p, 'v) BookEmbeddingPipeline =
  chunker :: TextChunker
  embedder :: Embedder
  provider :: 'p
  storage :: "'v QdrantStorage"
  processed_content :: "string set"

text \<open>
  What the pipeline is given: the standard library, the embedding provider and the text
  extractor. \<open>extract_text_from_url\<close> catches every exception; it returns
  \<open>(None, None, None)\<close>, here \<open>None\<close>, or a title that may be missing, the content and the
  hierarchy path.
\<close>

record ('p, 'v) collaborators =
  lib :: stdlib
  cohere_embed :: "('p, 'v) embed_api"
  extract_text_from_url :: "string \<Rightarrow> (string option \<times> string \<times> string) option"

definition generate_content_id :: "stdlib \<Rightarrow> string \<Rightarrow> string \<Rightarrow> string" where
  "generate_content_id l u content =
     ''content_'' @ take 12 (md5_hexdigest l (u @ take 100 content))"

text \<open>
  The \<open>for chunk, embedding in zip(chunks, embeddings)\<close> loop of \<open>process_single_url\<close>: it
  stops at the first save that raises.
\<close>

fun save_pairs ::
  "stdlib \<Rightarrow> 'v QdrantStorage \<Rightarrow> (ContentChunk \<times> 'v) list \<Rightarrow> exn option \<times> 'v QdrantStorage" where
  "save_pairs l st [] = (None, st)"
| "save_pairs l st ((chunk, embedding) # rest) =
     (case save_chunk_to_qdrant l st chunk embedding of
        (Some e, st') \<Rightarrow> (Some e, st')
      | (None, st') \<Rightarrow> save_pairs l st' rest)"

text \<open>
  \<open>process_single_url\<close>: the value returned and the pipeline after the call; \<open>None\<close> when
  the call does not return. Every exception is caught and turned into \<open>False\<close>.
\<close>

definition process_single_url ::
  "('p, 'v) collaborators \<Rightarrow> ('p, 'v) BookEmbeddingPipeline \<Rightarrow> string
   \<Rightarrow> (bool \<times> ('p, 'v) BookEmbeddingPipeline) option" where
  "process_single_url ext self u =
     (case extract_text_from_url ext u of
        None \<Rightarrow> Some (False, self)
      | Some (title, content, hpath) \<Rightarrow>
          if content = [] then Some (False, self)
          else
            let cid = generate_content_id (lib ext) u content
            in if cid \<in> processed_content self then Some (True, self)
               else
                 case TextChunker_chunk_text (lib ext) (chunker self) content cid u title hpath of
                   None \<Rightarrow> None
                 | Some chunk_list \<Rightarrow>
                     if chunk_list = [] then Some (False, self)
                     else
                       case embed_texts (cohere_embed ext) (embedder self) (map chunk_text chunk_list)
                              (provider self) of
                         (Inl e, p') \<Rightarrow> Some (False, self\<lparr>provider := p'\<rparr>)
                       | (Inr None, p') \<Rightarrow> Some (False, self\<lparr>provider := p'\<rparr>)
                       | (Inr (Some embeddings), p') \<Rightarrow>
                           if embeddings = [] \<or> length embeddings \<noteq> length chunk_list
                           then Some (False, self\<lparr>provider := p'\<rparr>)
                           else
                             case save_pairs (lib ext) (storage self) (zip chunk_list embeddings) of
                               (Some e, st') \<Rightarrow> Some (False, self\<lparr>provider := p', storage := st'\<rparr>)
                             | (None, st') \<Rightarrow>
                                 Some (True, self\<lparr>provider := p', storage := st',
                                              processed_content := insert cid (processed_content self)\<rparr>))"

section \<open>The validator (utils/validator.py)\<close>

definition exn_str :: "exn \<Rightarrow> string" where
  "exn_str e =
     (case e of
        ValueError m \<Rightarrow> m
      | ProviderError m \<Rightarrow> m
      | HTTPException status detail \<Rightarrow> str_int status @ '': '' @ detail)"

text \<open>
  \<open>np.array(embeddings).shape[1]\<close> for a list of lists of floats: the common length of the
  rows. Rows of different lengths, or no row at all, end in an exception (\<open>None\<close>).
\<close>

definition array_dimensions :: "'f list list \<Rightarrow> int option" where
  "array_dimensions embeddings =
     (case embeddings of
        [] \<Rightarrow> None
      | e # es \<Rightarrow> if list_all (\<lambda>x. length x = length e) es then Some (int (length e)) else None)"

text \<open>
  The dictionary that \<open>validate_embedding_quality\<close> returns: either \<open>{"error": ...}\<close> or the
  results. The norms and similarities are floating-point numbers: they are computed by a
  function \<open>float_statistics\<close> that the model is given, which raises or returns them as one
  value of type \<open>'s\<close>.
\<close>

record 's quality_results =
  embedding_count :: int
  dimensions :: int
  statistics :: 's
  is_valid :: bool

datatype 's embedding_validation = QualityError string | Quality "'s quality_results"

definition validate_embedding_quality ::
  "('p, 'f list) embed_api \<Rightarrow> ('f list list \<Rightarrow> exn + 's) \<Rightarrow> Embedder \<Rightarrow> string list \<Rightarrow> 'p
   \<Rightarrow> 's embedding_validation \<times> 'p" where
  "validate_embedding_quality co float_statistics self test_texts p =
     (if test_texts = [] then (QualityError ''No test texts provided'', p)
      else
        case embed_texts co self test_texts p of
          (Inl e, p') \<Rightarrow> (QualityError (exn_str e), p')
        | (Inr None, p') \<Rightarrow>
            (QualityError (''Mismatch in embeddings count: expected ''
               @ str_int (int (length test_texts)) @ '', got 0''), p')
        | (Inr (Some embeddings), p') \<Rightarrow>
            if embeddings = [] \<or> length embeddings \<noteq> length test_texts
            then (QualityError (''Mismatch in embeddings count: expected ''
                    @ str_int (int (length test_texts)) @ '', got ''
                    @ str_int (int (length embeddings))), p')
            else
              case array_dimensions embeddings of
                None \<Rightarrow> (QualityError ''inhomogeneous shape'', p')
              | Some d \<Rightarrow>
                  (case float_statistics embeddings of
                     Inl e \<Rightarrow> (QualityError (exn_str e), p')
                   | Inr stats \<Rightarrow>
                       (Quality \<lparr>embedding_count = int (length embeddings),
                                 dimensions = d,
                                 statistics = stats,
                                 is_valid = (d = 1024)\<rparr>, p')))"

text \<open>\<open>results["embedding_validation"].get("is_valid", False)\<close>.\<close>

definition get_is_valid :: "'s embedding_validation \<Rightarrow> bool" where
  "get_is_valid v = (case v of QualityError m \<Rightarrow> False | Quality r \<Rightarrow> is_valid r)"

text \<open>
  What \<open>run_comprehensive_validation\<close> reads from the store and hands to
  \<open>validate_retrieval_accuracy\<close>: \<open>collection_exists\<close> and \<open>count_points\<close> catch every
  exception; \<open>scroll\<close> raises or returns the payloads of the points of its first page, a
  payload being \<open>None\<close> or a dictionary. \<open>validate_retrieval_accuracy\<close> catches every
  exception; its result, of type \<open>'r\<close>, is kept as it is.
\<close>

record ('p, 'r) store_probe =
  collection_exists :: bool
  count_points :: int
  scroll :: "exn + pydict option list"
  validate_retrieval_accuracy :: "string list \<Rightarrow> 'p \<Rightarrow> 'r \<times> 'p"

record ('s, 'r) validation_results =
  timestamp :: string
  results_collection_exists :: bool
  total_points :: int
  embedding_validation :: "'s embedding_validation"
  retrieval_validation :: "'r option"
  overall_status :: string

datatype ('s, 'r) comprehensive = ValidationError string | Validation "('s, 'r) validation_results"

definition sample_texts :: "string list" where
  "sample_texts =
     [''Physical AI and Humanoid Robotics fundamentals'',
      ''Machine learning applications in robotics'',
      ''Sensor fusion for robotic perception'',
      ''Motion planning algorithms for humanoid robots'']"

text \<open>
  The retrieval test at the start of \<open>run_comprehensive_validation\<close>: an exception, or the
  value of \<open>results["retrieval_validation"]\<close>.
\<close>

definition sample_retrieval ::
  "('p, 'r) store_probe \<Rightarrow> 'p \<Rightarrow> (exn + 'r option) \<times> 'p" where
  "sample_retrieval probe p =
     (if collection_exists probe \<and> 0 < count_points probe
      then
        case scroll probe of
          Inl e \<Rightarrow> (Inl e, p)
        | Inr [] \<Rightarrow> (Inr None, p)
        | Inr (None # rest) \<Rightarrow>
            (Inl (ProviderError ''NoneType object has no attribute get''), p)
        | Inr (Some d # rest) \<Rightarrow>
            (case map_of d ''content'' of
               None \<Rightarrow> (Inr None, p)
             | Some PyNone \<Rightarrow> (Inr None, p)
             | Some (PyInt i) \<Rightarrow>
                 if i = 0 then (Inr None, p)
                 else (Inl (ProviderError ''int object is not subscriptable''), p)
             | Some (PyStr sample_content) \<Rightarrow>
                 if sample_content = [] then (Inr None, p)
                 else
                   case validate_retrieval_accuracy probe [take 200 sample_content] p of
                     (retrieval_test, p') \<Rightarrow> (Inr (Some retrieval_test), p'))
      else (Inr None, p))"

definition run_comprehensive_validation ::
  "stdlib \<Rightarrow> ('p, 'f list) embed_api \<Rightarrow> ('f list list \<Rightarrow> exn + 's) \<Rightarrow> ('p, 'r) store_probe
   \<Rightarrow> Embedder \<Rightarrow> 'p \<Rightarrow> ('s, 'r) comprehensive \<times> 'p" where
  "run_comprehensive_validation l co float_statistics probe self p =
     (case sample_retrieval probe p of
        (Inl e, p') \<Rightarrow> (ValidationError (exn_str e), p')
      | (Inr retrieval, p') \<Rightarrow>
          (case validate_embedding_quality co float_statistics self sample_texts p' of
             (quality, p'') \<Rightarrow>
               (Validation
                  \<lparr>timestamp = utcnow_isoformat l 0,
                   results_collection_exists = collection_exists probe,
                   total_points = (if collection_exists probe then count_points probe else 0),
                   embedding_validation = quality,
                   retrieval_validation = retrieval,
                   overall_status = (if get_is_valid quality then ''success'' else ''failed'')\<rparr>,
                p'')))"

definition status_of :: "('s, 'r) comprehensive \<Rightarrow> string" where
  "status_of res = (case res of ValidationError m \<Rightarrow> ''error'' | Validation r \<Rightarrow> overall_status r)"

section \<open>The conversation log (database/neon_logger.py)\<close>





section \<open>The answer endpoint (api/main.py)\<close>











section \<open>Batched embedding as the specification words it\<close>

text \<open>
  The texts are split into consecutive batches of \<open>n\<close> texts, the last one possibly shorter.
\<close>

function batches_spec :: "nat \<Rightarrow> 'a list \<Rightarrow> 'a list list" where
  "batches_spec n xs = (if n = 0 \<or> xs = [] then [] else take n xs # batches_spec n (drop n xs))"
  by pat_completeness auto
termination
  by (relation "measure (\<lambda>(n, xs). length xs)") auto

declare batches_spec.simps [simp del]

text \<open>
  Per-item retry: each text of a failed batch is sent alone, in order; the vectors of the
  calls that succeed are kept, a text that fails again leaves nothing.
\<close>

fun retry_each_spec ::
  "('p, 'v) embed_api \<Rightarrow> string \<Rightarrow> 'p \<Rightarrow> string list \<Rightarrow> 'v list \<times> 'p" where
  "retry_each_spec co m p [] = ([], p)"
| "retry_each_spec co m p (t # ts) =
     (case co p m [t] of
        (Inr vs, p1) \<Rightarrow> (case retry_each_spec co m p1 ts of (rest, p2) \<Rightarrow> (vs @ rest, p2))
      | (Inl e, p1) \<Rightarrow> retry_each_spec co m p1 ts)"

text \<open>
  Per batch: on success all the vectors returned, in order; on failure the per-item retry.
\<close>

fun embed_batches_spec ::
  "('p, 'v) embed_api \<Rightarrow> string \<Rightarrow> 'p \<Rightarrow> string list list \<Rightarrow> 'v list \<times> 'p" where
  "embed_batches_spec co m p [] = ([], p)"
| "embed_batches_spec co m p (b # bs) =
     (case co p m b of
        (Inr vs, p1) \<Rightarrow> (case embed_batches_spec co m p1 bs of (rest, p2) \<Rightarrow> (vs @ rest, p2))
      | (Inl e, p1) \<Rightarrow>
          (case retry_each_spec co m p1 b of
             (kept, p2) \<Rightarrow>
               (case embed_batches_spec co m p2 bs of (rest, p3) \<Rightarrow> (kept @ rest, p3))))"

text \<open>The provider returns one vector for each text of a call that succeeds.\<close>

definition one_vector_per_text :: "('p, 'v) embed_api \<Rightarrow> bool" where
  "one_vector_per_text co \<longleftrightarrow> (\<forall>p m ts vs p'. co p m ts = (Inr vs, p') \<longrightarrow> length vs = length ts)"

section \<open>Values for the examples\<close>

definition lib0 :: stdlib where
  "lib0 = \<lparr>md5_hexdigest = (\<lambda>b. ''9e107d9d372bb6826bd81d3542a419d6''),
           utcnow_isoformat = (\<lambda>k. ''2024-01-01T00:00:00''),
           uuid5_dns = (\<lambda>name. ''uuid5-'' @ name)\<rparr>"

definition chunk0 :: "string \<Rightarrow> int \<Rightarrow> int \<Rightarrow> ContentChunk" where
  "chunk0 txt k own =
     \<lparr>id' = chunk_id lib0 ''content_9e107d9d372b'' txt k,
      content_id = ''content_9e107d9d372b'',
      chunk_text = txt,
      chunk_index = k,
      token_count = int (length (split_ws txt)),
      section_title = Some ''Intro'',
      hierarchy_path = ''docs/intro'',
      overlap_with_next = own,
      created_at = ''2024-01-01T00:00:00'',
      url = ''https://example.org/docs/intro''\<rparr>"

definition store0 :: "int list QdrantStorage" where
  "store0 = \<lparr>points = Map.empty, upsert_requests = [], rejects = (\<lambda>pts. False)\<rparr>"

text \<open>
  A provider that fails on every call with more than one text and on one particular text,
  and a page of four sentences.
\<close>

definition cohere0 :: "(nat, int list) embed_api" where
  "cohere0 p m ts =
     (if 1 < length ts \<or> ts = [''They plan their motion. They act on it.'']
      then (Inl (ProviderError ''503 Service Unavailable''), p + 1)
      else (Inr (map (\<lambda>t. [int (length t), int p]) ts), p + 1))"

definition page0 :: string where
  "page0 = ''Robots sense the world. They plan their motion. They act on it. They learn from errors.''"

definition ext0 :: "(nat, int list) collaborators" where
  "ext0 = \<lparr>lib = lib0, cohere_embed = cohere0,
            extract_text_from_url = (\<lambda>u. Some (Some ''Intro'', page0, ''docs/intro''))\<rparr>"

definition url0 :: string where
  "url0 = ''https://example.org/docs/intro''"

definition page0_chunks :: "ContentChunk list" where
  "page0_chunks =
     [chunk0 ''Robots sense the world. They plan their motion.'' 0 1,
      chunk0 ''They plan their motion. They act on it.'' 1 1,
      chunk0 ''They act on it. They learn from errors.'' 2 0]"

definition pipeline0 :: "(nat, int list) BookEmbeddingPipeline" where
  "pipeline0 =
     \<lparr>chunker = \<lparr>chunk_size = 2, overlap = 1 / 4\<rparr>,
      embedder = \<lparr>model_name = ''embed-multilingual-v2.0'', max_batch_size = 96\<rparr>,
      provider = 0,
      storage = store0,
      processed_content = {}\<rparr>"

text \<open>
  A provider that returns a vector of 768 numbers for every text, statistics that never
  raise, and a store without a collection.
\<close>

definition cohere768 :: "(nat, int list) embed_api" where
  "cohere768 p m ts = (Inr (map (\<lambda>t. replicate 768 0) ts), p + 1)"

definition statistics0 :: "int list list \<Rightarrow> exn + unit" where
  "statistics0 embeddings = Inr ()"

definition probe0 :: "(nat, unit) store_probe" where
  "probe0 = \<lparr>collection_exists = False, count_points = 0, scroll = Inr [],
             validate_retrieval_accuracy = (\<lambda>queries p. ((), p))\<rparr>"





section \<open>Facts about the string functions\<close>

lemma is_space_blank: "is_space CHR '' ''"
  by (simp add: is_space_def)

lemma dropWhile_all_iff: "(\<forall>c \<in> set (dropWhile P s). P c) \<longleftrightarrow> (\<forall>c \<in> set s. P c)"
proof
  assume a: "\<forall>c \<in> set (dropWhile P s). P c"
  have "dropWhile P s = []"
  proof (rule ccontr)
    assume ne: "dropWhile P s \<noteq> []"
    then have "\<not> P (hd (dropWhile P s))" by (rule hd_dropWhile)
    moreover from ne have "hd (dropWhile P s) \<in> set (dropWhile P s)" by simp
    ultimately show False using a by blast
  qed
  then show "\<forall>c \<in> set s. P c" by (simp add: dropWhile_eq_Nil_conv)
next
  assume "\<forall>c \<in> set s. P c"
  then show "\<forall>c \<in> set (dropWhile P s). P c" by (blast dest: set_dropWhileD)
qed

lemma strip_Nil_iff: "strip s = [] \<longleftrightarrow> (\<forall>c \<in> set s. is_space c)"
  by (simp add: strip_def lstrip_def rstrip_def dropWhile_eq_Nil_conv dropWhile_all_iff)

lemma strip_has_char:
  assumes "strip s \<noteq> []"
  shows "\<exists>c \<in> set (strip s). \<not> is_space c"
proof -
  let ?z = "dropWhile is_space (rev (lstrip s))"
  from assms have ne: "?z \<noteq> []" by (simp add: strip_def rstrip_def)
  then have "\<not> is_space (hd ?z)" by (rule hd_dropWhile)
  moreover from ne have "hd ?z \<in> set (strip s)" by (simp add: strip_def rstrip_def)
  ultimately show ?thesis by blast
qed

lemma strip_strip_nonempty: "strip s \<noteq> [] \<Longrightarrow> strip (strip s) \<noteq> []"
  using strip_has_char[of s] by (auto simp: strip_Nil_iff[of "strip s"])

lemma split_acc_cur: "cur \<noteq> [] \<Longrightarrow> split_acc cur s \<noteq> []"
  by (induction s arbitrary: cur) auto

lemma split_acc_nonempty: "\<exists>c \<in> set s. \<not> is_space c \<Longrightarrow> split_acc cur s \<noteq> []"
  by (induction s arbitrary: cur) (auto simp: split_acc_cur)

lemma split_ws_nonempty: "strip s \<noteq> [] \<Longrightarrow> split_ws s \<noteq> []"
  unfolding split_ws_def by (rule split_acc_nonempty) (simp add: strip_Nil_iff)

lemma split_acc_words:
  "\<forall>c \<in> set cur. \<not> is_space c \<Longrightarrow> w \<in> set (split_acc cur s) \<Longrightarrow>
     w \<noteq> [] \<and> (\<forall>c \<in> set w. \<not> is_space c)"
proof (induction s arbitrary: cur)
  case Nil
  then show ?case by (auto split: if_splits)
next
  case (Cons a s)
  show ?case
  proof (cases "is_space a")
    case True
    show ?thesis
    proof (cases "cur = []")
      case True
      with \<open>is_space a\<close> Cons.prems(2) have "w \<in> set (split_acc [] s)" by simp
      then show ?thesis using Cons.IH[of "[]"] by simp
    next
      case False
      with \<open>is_space a\<close> Cons.prems(2) have "w = rev cur \<or> w \<in> set (split_acc [] s)" by simp
      then show ?thesis
      proof
        assume "w = rev cur"
        with False Cons.prems(1) show ?thesis by simp
      next
        assume "w \<in> set (split_acc [] s)"
        then show ?thesis using Cons.IH[of "[]"] by simp
      qed
    qed
  next
    case False
    with Cons.prems(2) have "w \<in> set (split_acc (a # cur) s)" by simp
    moreover from False Cons.prems(1) have "\<forall>c \<in> set (a # cur). \<not> is_space c" by simp
    ultimately show ?thesis using Cons.IH[of "a # cur"] by blast
  qed
qed

lemma split_ws_words: "w \<in> set (split_ws s) \<Longrightarrow> w \<noteq> [] \<and> (\<forall>c \<in> set w. \<not> is_space c)"
  unfolding split_ws_def using split_acc_words[of "[]" w s] by simp

lemma split_acc_append_word:
  "\<forall>c \<in> set w. \<not> is_space c \<Longrightarrow> split_acc cur (w @ s) = split_acc (rev w @ cur) s"
  by (induction w arbitrary: cur) auto

lemma split_acc_join:
  assumes "\<forall>w \<in> set ws. w \<noteq> [] \<and> (\<forall>c \<in> set w. \<not> is_space c)"
  shows "split_acc cur (join_space ws) =
     (case ws of [] \<Rightarrow> (if cur = [] then [] else [rev cur]) | w # rest \<Rightarrow> (rev cur @ w) # rest)"
  using assms
proof (induction ws arbitrary: cur rule: join_space.induct)
  case 1
  then show ?case by simp
next
  case (2 x)
  then show ?case using split_acc_append_word[of x cur "[]"] by simp
next
  case (3 x y ys)
  from 3(2) have x: "\<forall>c \<in> set x. \<not> is_space c" "x \<noteq> []" by simp_all
  from 3(2) have rest: "\<forall>w \<in> set (y # ys). w \<noteq> [] \<and> (\<forall>c \<in> set w. \<not> is_space c)" by simp
  have "split_acc cur (join_space (x # y # ys)) =
        split_acc (rev x @ cur) (CHR '' '' # join_space (y # ys))"
    using split_acc_append_word[OF x(1)] by simp
  also have "\<dots> = (rev cur @ x) # split_acc [] (join_space (y # ys))"
    using x(2) by (simp add: is_space_blank)
  also have "split_acc [] (join_space (y # ys)) = y # ys"
    using "3.IH"[OF rest, of "[]"] by simp
  finally show ?case by simp
qed

lemma split_ws_join:
  "\<forall>w \<in> set ws. w \<noteq> [] \<and> (\<forall>c \<in> set w. \<not> is_space c) \<Longrightarrow> split_ws (join_space ws) = ws"
  unfolding split_ws_def by (simp add: split_acc_join split: list.splits)

lemma set_py_slice: "set (py_slice xs i j) \<subseteq> set xs"
  unfolding py_slice_def Let_def by (meson set_take_subset set_drop_subset subset_trans)

section \<open>Facts about while loops\<close>

lemma while_loop_rule:
  assumes run: "while_loop b c s = Some t" and init: "P s"
    and step: "\<And>s. P s \<Longrightarrow> b s \<Longrightarrow> P (c s)"
  shows "P t \<and> \<not> b t"
proof -
  have "b' = b \<and> c' = c \<and> P s' \<longrightarrow> P t' \<and> \<not> b t'"
    if "while_loop b' c' s' = Some t'" for b' c' s' t'
  proof (rule while_loop.raw_induct
      [where P = "\<lambda>b' c' s' t'. b' = b \<and> c' = c \<and> P s' \<longrightarrow> P t' \<and> \<not> b t'", OF _ that])
    fix w b1 c1 s1 t1
    assume ih: "\<And>b2 c2 s2 t2. w b2 c2 s2 = Some t2 \<Longrightarrow> b2 = b \<and> c2 = c \<and> P s2 \<longrightarrow> P t2 \<and> \<not> b t2"
      and unfold: "(if b1 s1 then w b1 c1 (c1 s1) else Some s1) = Some t1"
    show "b1 = b \<and> c1 = c \<and> P s1 \<longrightarrow> P t1 \<and> \<not> b t1"
    proof (intro impI, elim conjE)
      assume eq: "b1 = b" "c1 = c" and p: "P s1"
      show "P t1 \<and> \<not> b t1"
      proof (cases "b s1")
        case True
        with unfold eq have "w b c (c s1) = Some t1" by simp
        from ih[OF this] step[OF p True] show ?thesis by simp
      next
        case False
        with unfold eq have "t1 = s1" by simp
        with False p show ?thesis by simp
      qed
    qed
  qed
  from this[OF run] init show ?thesis by simp
qed

lemma while_loop_diverges:
  assumes init: "P s" and step: "\<And>s. P s \<Longrightarrow> b s \<and> P (c s)"
  shows "while_loop b c s = None"
proof (cases "while_loop b c s")
  case None
  then show ?thesis .
next
  case (Some t)
  from while_loop_rule[OF Some, of P] init step have "P t \<and> \<not> b t" by blast
  with step show ?thesis by blast
qed

lemma while_loop_terminates:
  fixes m :: "'s \<Rightarrow> nat"
  assumes init: "P s" and step: "\<And>s. P s \<Longrightarrow> b s \<Longrightarrow> P (c s) \<and> m (c s) < m s"
  shows "\<exists>t. while_loop b c s = Some t"
  using init
proof (induction "m s" arbitrary: s rule: less_induct)
  case less
  show ?case
  proof (cases "b s")
    case True
    from step[OF less.prems True] have "P (c s)" "m (c s) < m s" by simp_all
    from less.hyps[OF this(2) this(1)] obtain t where "while_loop b c (c s) = Some t" ..
    with True show ?thesis by (subst while_loop.simps) simp
  next
    case False
    then show ?thesis by (subst while_loop.simps) simp
  qed
qed

section \<open>The vector store: size check and point identity\<close>

text \<open>
  Claim C6. When the numbers of chunks and of embeddings differ, \<open>save_chunks_batch\<close> raises
  \<open>ValueError\<close> and the store is as before the call: the client has received no upsert
  request and no point is written.
\<close>

theorem save_chunks_batch_size_mismatch:
  assumes "length chunk_list \<noteq> length embeddings"
  shows "(\<exists>msg. fst (save_chunks_batch l self chunk_list embeddings) = Some (ValueError msg))
         \<and> snd (save_chunks_batch l self chunk_list embeddings) = self
         \<and> upsert_requests (snd (save_chunks_batch l self chunk_list embeddings)) = upsert_requests self
         \<and> points (snd (save_chunks_batch l self chunk_list embeddings)) = points self"
  using assms by (simp add: save_chunks_batch_def)

text \<open>Three chunks with two vectors: \<open>ValueError\<close>, no request and no point.\<close>

theorem save_chunks_batch_size_mismatch_witness:
  "length [chunk0 ''A. B.'' 0 0, chunk0 ''C. D.'' 1 0, chunk0 ''E.'' 2 0] \<noteq> length [[1, 2], [3, 4 :: int]]
   \<and> (\<exists>msg. fst (save_chunks_batch lib0 store0 [chunk0 ''A. B.'' 0 0, chunk0 ''C. D.'' 1 0, chunk0 ''E.'' 2 0]
                  [[1, 2], [3, 4]]) = Some (ValueError msg))
   \<and> upsert_requests (snd (save_chunks_batch lib0 store0
         [chunk0 ''A. B.'' 0 0, chunk0 ''C. D.'' 1 0, chunk0 ''E.'' 2 0] [[1, 2], [3, 4]])) = []
   \<and> points (snd (save_chunks_batch lib0 store0
         [chunk0 ''A. B.'' 0 0, chunk0 ''C. D.'' 1 0, chunk0 ''E.'' 2 0] [[1, 2], [3, 4]])) = Map.empty"
  using save_chunks_batch_size_mismatch
    [of "[chunk0 ''A. B.'' 0 0, chunk0 ''C. D.'' 1 0, chunk0 ''E.'' 2 0]" "[[1, 2], [3, 4 :: int]]" lib0 store0]
  by (simp add: store0_def)

lemma client_upsert_single:
  "client_upsert st [pt] = (None, st') \<Longrightarrow>
     points st' = (points st)(point_id pt \<mapsto> pt) \<and> upsert_requests st' = upsert_requests st @ [[pt]]
     \<and> rejects st' = rejects st"
  by (auto simp: client_upsert_def Let_def split: if_splits)

text \<open>
  Claim C7. The id of a stored point is \<open>uuid5\<close> of the chunk's \<open>id\<close>, in
  \<open>save_chunk_to_qdrant\<close> as in \<open>save_chunks_batch\<close> (a batch of one chunk is the single
  save). So when two chunks with the same \<open>id\<close> are saved one after the other, the second
  point replaces the first: the store has one more id than before, and exactly one point when
  it was empty.
\<close>

theorem point_id_deterministic:
  assumes same: "id' c1 = id' c2"
    and first: "save_chunk_to_qdrant l st c1 e1 = (None, st1)"
    and second: "save_chunk_to_qdrant l st1 c2 e2 = (None, st2)"
  shows "save_chunks_batch l st [c1] [e1] = save_chunk_to_qdrant l st c1 e1
     \<and> dom (points st2) = insert (uuid5_dns l (id' c1)) (dom (points st))
     \<and> points st2 (uuid5_dns l (id' c1))
         = Some \<lparr>point_id = uuid5_dns l (id' c2), vector = e2, payload = chunk_payload c2\<rparr>
     \<and> (points st = Map.empty \<longrightarrow> card (dom (points st2)) = 1)"
proof -
  have batch: "save_chunks_batch l st [c1] [e1] = save_chunk_to_qdrant l st c1 e1"
    by (simp add: save_chunks_batch_def save_chunk_to_qdrant_def)
  have p1: "points st1 = (points st)(uuid5_dns l (id' c1) \<mapsto>
      \<lparr>point_id = uuid5_dns l (id' c1), vector = e1, payload = chunk_payload c1\<rparr>)"
    using client_upsert_single[OF first[unfolded save_chunk_to_qdrant_def]] by simp
  have p2: "points st2 = (points st1)(uuid5_dns l (id' c2) \<mapsto>
      \<lparr>point_id = uuid5_dns l (id' c2), vector = e2, payload = chunk_payload c2\<rparr>)"
    using client_upsert_single[OF second[unfolded save_chunk_to_qdrant_def]] by simp
  have d: "dom (points st2) = insert (uuid5_dns l (id' c1)) (dom (points st))"
    using p1 p2 same by auto
  have v: "points st2 (uuid5_dns l (id' c1))
         = Some \<lparr>point_id = uuid5_dns l (id' c2), vector = e2, payload = chunk_payload c2\<rparr>"
    using p2 same by simp
  have "points st = Map.empty \<longrightarrow> card (dom (points st2)) = 1"
    using d by simp
  with batch d v show ?thesis by blast
qed

text \<open>The same chunk saved twice into the empty store: one point.\<close>

theorem point_id_deterministic_witness:
  "id' (chunk0 ''A. B.'' 0 0) = id' (chunk0 ''A. B.'' 0 0)
   \<and> card (dom (points (snd (save_chunk_to_qdrant lib0
        (snd (save_chunk_to_qdrant lib0 store0 (chunk0 ''A. B.'' 0 0) [1, 2]))
        (chunk0 ''A. B.'' 0 0) [1, 2])))) = 1"
proof -
  obtain st1 where s1: "save_chunk_to_qdrant lib0 store0 (chunk0 ''A. B.'' 0 0) [1, 2] = (None, st1)"
    by (simp add: save_chunk_to_qdrant_def client_upsert_def store0_def)
  obtain st2 where s2: "save_chunk_to_qdrant lib0 st1 (chunk0 ''A. B.'' 0 0) [1, 2] = (None, st2)"
    using s1 by (auto simp add: save_chunk_to_qdrant_def client_upsert_def store0_def)
  have "points store0 = Map.empty" by (simp add: store0_def)
  with point_id_deterministic[OF refl s1 s2] have "card (dom (points st2)) = 1" by blast
  with s1 s2 show ?thesis by simp
qed

section \<open>The pipeline: chunks and embeddings stay aligned\<close>

lemma save_pairs_requests:
  "save_pairs l st pairs = (r, st') \<Longrightarrow>
     \<exists>k. upsert_requests st' = upsert_requests st @
       map (\<lambda>(c, e). [\<lparr>point_id = uuid5_dns l (id' c), vector = e, payload = chunk_payload c\<rparr>])
         (take k pairs)"
proof (induction pairs arbitrary: st)
  case Nil
  then show ?case by simp
next
  case (Cons a pairs)
  obtain c e where a: "a = (c, e)" by (cases a)
  let ?pt = "\<lparr>point_id = uuid5_dns l (id' c), vector = e, payload = chunk_payload c\<rparr>"
  obtain r1 st1 where s1: "save_chunk_to_qdrant l st c e = (r1, st1)" by force
  then have req1: "upsert_requests st1 = upsert_requests st @ [[?pt]]"
    by (auto simp: save_chunk_to_qdrant_def client_upsert_def Let_def split: if_splits)
  show ?case
  proof (cases r1)
    case None
    with Cons.prems a s1 have "save_pairs l st1 pairs = (r, st')" by simp
    from Cons.IH[OF this] obtain k where
      "upsert_requests st' = upsert_requests st1 @
         map (\<lambda>(c, e). [\<lparr>point_id = uuid5_dns l (id' c), vector = e, payload = chunk_payload c\<rparr>])
           (take k pairs)" ..
    with req1 a have "upsert_requests st' = upsert_requests st @
         map (\<lambda>(c, e). [\<lparr>point_id = uuid5_dns l (id' c), vector = e, payload = chunk_payload c\<rparr>])
           (take (Suc k) (a # pairs))" by simp
    then show ?thesis ..
  next
    case (Some x)
    with Cons.prems a s1 have "st' = st1" by simp
    with req1 a have "upsert_requests st' = upsert_requests st @
         map (\<lambda>(c, e). [\<lparr>point_id = uuid5_dns l (id' c), vector = e, payload = chunk_payload c\<rparr>])
           (take (Suc 0) (a # pairs))" by simp
    then show ?thesis ..
  qed
qed


text \<open>
  Claim C1. Take a URL whose page is extracted, is not yet processed and is cut into the
  chunks \<open>chunk_list\<close>, and let \<open>embeddings\<close> be what \<open>embed_texts\<close> returns for their
  texts. \<open>process_single_url\<close> returns. When the embeddings are missing or their number is
  not the number of chunks, it returns \<open>False\<close> and leaves the store and the set of
  processed pages as they were. In every case the upsert requests it has sent are, in order,
  the points of the first \<open>k\<close> pairs of \<open>zip(chunks, embeddings)\<close>, for some \<open>k\<close>: each
  chunk goes with the embedding at its own position.
\<close>

theorem process_single_url_alignment:
  assumes ex: "extract_text_from_url ext u = Some (title, content, hpath)"
    and ne: "content \<noteq> []"
    and fresh: "generate_content_id (lib ext) u content \<notin> processed_content self"
    and ch: "TextChunker_chunk_text (lib ext) (chunker self) content
               (generate_content_id (lib ext) u content) u title hpath = Some chunk_list"
    and cne: "chunk_list \<noteq> []"
    and em: "embed_texts (cohere_embed ext) (embedder self) (map chunk_text chunk_list)
               (provider self) = (Inr embeddings, p')"
  shows "\<exists>ok self'. process_single_url ext self u = Some (ok, self')
     \<and> (embeddings = None
          \<or> length (case embeddings of None \<Rightarrow> [] | Some es \<Rightarrow> es) \<noteq> length chunk_list
        \<longrightarrow> \<not> ok \<and> storage self' = storage self
            \<and> processed_content self' = processed_content self)
     \<and> (\<exists>k. upsert_requests (storage self') = upsert_requests (storage self) @
            map (\<lambda>(c, e). [\<lparr>point_id = uuid5_dns (lib ext) (id' c), vector = e,
                              payload = chunk_payload c\<rparr>])
              (take k (zip chunk_list (case embeddings of None \<Rightarrow> [] | Some es \<Rightarrow> es))))"
proof (cases embeddings)
  case None
  with ex ne fresh ch cne em
  have "process_single_url ext self u = Some (False, self\<lparr>provider := p'\<rparr>)"
    by (simp add: process_single_url_def)
  with None show ?thesis by auto
next
  case (Some es)
  show ?thesis
  proof (cases "es = [] \<or> length es \<noteq> length chunk_list")
    case True
    with Some ex ne fresh ch cne em
    have "process_single_url ext self u = Some (False, self\<lparr>provider := p'\<rparr>)"
      by (simp add: process_single_url_def)
    with Some True show ?thesis by auto
  next
    case False
    obtain r st' where sp: "save_pairs (lib ext) (storage self) (zip chunk_list es) = (r, st')"
      by force
    from save_pairs_requests[OF sp] obtain k where
      k: "upsert_requests st' = upsert_requests (storage self) @
            map (\<lambda>(c, e). [\<lparr>point_id = uuid5_dns (lib ext) (id' c), vector = e,
                              payload = chunk_payload c\<rparr>])
              (take k (zip chunk_list es))" ..
    show ?thesis
    proof (cases r)
      case None
      with Some False ex ne fresh ch cne em sp
      have "process_single_url ext self u =
              Some (True, self\<lparr>provider := p', storage := st',
                processed_content := insert (generate_content_id (lib ext) u content)
                  (processed_content self)\<rparr>)"
        by (simp add: process_single_url_def)
      with Some False k show ?thesis by auto
    next
      case (Some e)
      with \<open>embeddings = Some es\<close> False ex ne fresh ch cne em sp
      have "process_single_url ext self u = Some (False, self\<lparr>provider := p', storage := st'\<rparr>)"
        by (simp add: process_single_url_def)
      with \<open>embeddings = Some es\<close> False k show ?thesis by auto
    qed
  qed
qed


text \<open>
  A page of three chunks, for which the provider drops the second text: two embeddings for
  three chunks, the result is \<open>False\<close> and nothing is sent to the store.
\<close>

theorem process_single_url_alignment_witness:
  "extract_text_from_url ext0 url0 = Some (Some ''Intro'', page0, ''docs/intro'')
   \<and> page0 \<noteq> []
   \<and> generate_content_id (lib ext0) url0 page0 \<notin> processed_content pipeline0
   \<and> TextChunker_chunk_text (lib ext0) (chunker pipeline0) page0
         (generate_content_id (lib ext0) url0 page0) url0 (Some ''Intro'') ''docs/intro''
       = Some page0_chunks
   \<and> page0_chunks \<noteq> []
   \<and> embed_texts (cohere_embed ext0) (embedder pipeline0) (map chunk_text page0_chunks)
         (provider pipeline0) = (Inr (Some [[47, 1], [39, 3]]), 4)
   \<and> (\<exists>ok self'. process_single_url ext0 pipeline0 url0 = Some (ok, self')
         \<and> \<not> ok \<and> storage self' = storage pipeline0
         \<and> upsert_requests (storage self') = [])"
proof -
  have ex: "extract_text_from_url ext0 url0 = Some (Some ''Intro'', page0, ''docs/intro'')"
    by (simp add: ext0_def)
  have ne: "page0 \<noteq> []"
    by (simp add: page0_def)
  have fresh: "generate_content_id (lib ext0) url0 page0 \<notin> processed_content pipeline0"
    by (simp add: pipeline0_def)
  have ch: "TextChunker_chunk_text (lib ext0) (chunker pipeline0) page0
         (generate_content_id (lib ext0) url0 page0) url0 (Some ''Intro'') ''docs/intro''
       = Some page0_chunks"
    by code_simp
  have cne: "page0_chunks \<noteq> []"
    by (simp add: page0_chunks_def)
  have em: "embed_texts (cohere_embed ext0) (embedder pipeline0) (map chunk_text page0_chunks)
         (provider pipeline0) = (Inr (Some [[47, 1], [39, 3]]), 4)"
    by code_simp
  have len: "length page0_chunks = 3"
    by (simp add: page0_chunks_def)
  have req: "upsert_requests (storage pipeline0) = []"
    by (simp add: pipeline0_def store0_def)
  from process_single_url_alignment[OF ex ne fresh ch cne em] len req
  have "\<exists>ok self'. process_single_url ext0 pipeline0 url0 = Some (ok, self')
         \<and> \<not> ok \<and> storage self' = storage pipeline0
         \<and> upsert_requests (storage self') = []"
    by auto
  with ex ne fresh ch cne em show ?thesis by blast
qed

section \<open>The embedder: batches and per-item retry\<close>

lemma map_filter_id_append:
  "List.map_filter (\<lambda>e. e) (xs @ ys) = List.map_filter (\<lambda>e. e) xs @ List.map_filter (\<lambda>e. e) ys"
  by (simp add: List.map_filter_def)

lemma map_filter_id_Some: "List.map_filter (\<lambda>e. e) (map Some vs) = vs"
  by (induction vs) (simp_all add: List.map_filter_def)

lemma fallback_loop_spec:
  "fallback_loop co self ts acc p =
     (case fallback_loop co self ts [] p of (out, p') \<Rightarrow> (acc @ out, p'))"
proof (induction ts arbitrary: acc p)
  case Nil
  then show ?case by simp
next
  case (Cons t ts)
  show ?case
  proof (cases "co p (model_name self) [t]")
    case (Pair r p1)
    show ?thesis
    proof (cases r)
      case (Inl e)
      with Pair show ?thesis
        using Cons.IH[of "acc @ [None]" p1] Cons.IH[of "[None]" p1]
        by (simp split: prod.splits)
    next
      case (Inr vs)
      with Pair show ?thesis
        using Cons.IH[of "acc @ map Some vs" p1] Cons.IH[of "map Some vs" p1]
        by (simp split: prod.splits)
    qed
  qed
qed

lemma fallback_loop_retry:
  "(case fallback_loop co self ts [] p of (out, p') \<Rightarrow> (List.map_filter (\<lambda>e. e) out, p'))
     = retry_each_spec co (model_name self) p ts"
proof (induction ts arbitrary: p)
  case Nil
  then show ?case by (simp add: List.map_filter_def)
next
  case (Cons t ts)
  show ?case
  proof (cases "co p (model_name self) [t]")
    case (Pair r p1)
    show ?thesis
    proof (cases r)
      case (Inl e)
      with Pair show ?thesis
        using Cons.IH[of p1] fallback_loop_spec[of co self ts "[None]" p1]
        by (auto simp: map_filter_id_append List.map_filter_def split: prod.splits)
    next
      case (Inr vs)
      with Pair show ?thesis
        using Cons.IH[of p1] fallback_loop_spec[of co self ts "map Some vs" p1]
        by (auto simp: map_filter_id_append map_filter_id_Some split: prod.splits)
    qed
  qed
qed


lemma py_slice_batch:
  assumes "0 \<le> i" "0 < n"
  shows "py_slice xs i (i + n) = take (nat n) (drop (nat i) xs)"
proof (cases "i \<le> int (length xs)")
  case True
  with assms show ?thesis
    by (auto simp: py_slice_def slice_bound_def Let_def min_def nat_add_distrib nat_diff_distrib)
next
  case False
  with assms show ?thesis
    by (auto simp: py_slice_def slice_bound_def Let_def min_def)
qed

lemma batch_loop_spec:
  assumes "0 < max_batch_size self" "0 \<le> i"
  shows "batch_loop co self texts i acc p =
     (case embed_batches_spec co (model_name self) p
             (batches_spec (nat (max_batch_size self)) (drop (nat i) texts)) of
        (out, p') \<Rightarrow> (acc @ out, p'))"
  using assms
proof (induction co self texts i acc p rule: batch_loop.induct)
  case (1 co self texts i acc p)
  let ?n = "max_batch_size self"
  let ?m = "model_name self"
  show ?case
  proof (cases "i < int (length texts)")
    case False
    with "1.prems" have "drop (nat i) texts = []" by simp
    with False show ?thesis
      by (subst batch_loop.simps) (simp add: batches_spec.simps)
  next
    case True
    let ?batch = "py_slice texts i (i + ?n)"
    have batch: "?batch = take (nat ?n) (drop (nat i) texts)"
      using "1.prems" by (rule_tac py_slice_batch) simp_all
    from True "1.prems" have ne: "drop (nat i) texts \<noteq> []" by simp
    have rest: "drop (nat (i + ?n)) texts = drop (nat ?n) (drop (nat i) texts)"
      using "1.prems" by (simp add: nat_add_distrib add.commute)
    have unfold: "batches_spec (nat ?n) (drop (nat i) texts)
        = ?batch # batches_spec (nat ?n) (drop (nat (i + ?n)) texts)"
      using ne "1.prems" batch rest by (subst batches_spec.simps) simp
    have nonneg: "0 \<le> i + ?n" using "1.prems" by simp
    have cond: "0 < ?n \<and> i < int (length texts)" using True "1.prems" by simp
    obtain r p1 where call: "co p ?m ?batch = (r, p1)" by force
    show ?thesis
    proof (cases r)
      case (Inr vs)
      have "batch_loop co self texts i acc p = batch_loop co self texts (i + ?n) (acc @ vs) p1"
        using True "1.prems" call Inr by (subst batch_loop.simps) simp
      also have "\<dots> = (case embed_batches_spec co ?m p1
             (batches_spec (nat ?n) (drop (nat (i + ?n)) texts)) of
           (out, p') \<Rightarrow> ((acc @ vs) @ out, p'))"
        using "1.IH"(2)[OF cond refl call[symmetric] Inr "1.prems"(1) nonneg] .
      finally show ?thesis
        using call Inr unfold by (simp split: prod.splits)
    next
      case (Inl e)
      obtain fb p2 where fb: "fallback_loop co self ?batch [] p1 = (fb, p2)" by force
      with fallback_loop_retry[of co self ?batch p1]
      have retry: "retry_each_spec co ?m p1 ?batch = (List.map_filter (\<lambda>e. e) fb, p2)" by simp
      have "batch_loop co self texts i acc p =
              batch_loop co self texts (i + ?n) (acc @ List.map_filter (\<lambda>e. e) fb) p2"
        using True "1.prems" call Inl fb by (subst batch_loop.simps) simp
      also have "\<dots> = (case embed_batches_spec co ?m p2
             (batches_spec (nat ?n) (drop (nat (i + ?n)) texts)) of
           (out, p') \<Rightarrow> ((acc @ List.map_filter (\<lambda>e. e) fb) @ out, p'))"
        using "1.IH"(1)[OF cond refl call[symmetric] Inl fb[symmetric] "1.prems"(1) nonneg] .
      finally show ?thesis
        using call Inl unfold retry by (simp split: prod.splits)
    qed
  qed
qed


lemma batches_spec_concat: "0 < n \<Longrightarrow> concat (batches_spec n xs) = xs"
proof (induction n xs rule: batches_spec.induct)
  case (1 n xs)
  then show ?case by (subst batches_spec.simps) simp
qed

lemma batches_spec_sizes: "b \<in> set (batches_spec n xs) \<Longrightarrow> b \<noteq> [] \<and> length b \<le> n"
proof (induction n xs rule: batches_spec.induct)
  case (1 n xs)
  show ?case
  proof (cases "n = 0 \<or> xs = []")
    case True
    with "1.prems" show ?thesis by (simp add: batches_spec.simps)
  next
    case False
    with "1.prems" have "b = take n xs \<or> b \<in> set (batches_spec n (drop n xs))"
      by (subst (asm) batches_spec.simps) simp
    then show ?thesis
    proof
      assume "b = take n xs"
      with False show ?thesis by simp
    next
      assume "b \<in> set (batches_spec n (drop n xs))"
      with "1.IH"[OF False] show ?thesis .
    qed
  qed
qed

lemma retry_each_spec_length:
  assumes "one_vector_per_text co"
  shows "length (fst (retry_each_spec co m p ts)) \<le> length ts"
proof (induction ts arbitrary: p)
  case Nil
  then show ?case by simp
next
  case (Cons t ts)
  obtain r p1 where call: "co p m [t] = (r, p1)" by force
  show ?case
  proof (cases r)
    case (Inl e)
    with call Cons.IH[of p1] show ?thesis by simp
  next
    case (Inr vs)
    with call assms have "length vs = length [t]" unfolding one_vector_per_text_def by blast
    with call Inr Cons.IH[of p1] show ?thesis by (auto split: prod.splits)
  qed
qed

lemma embed_batches_spec_length:
  assumes "one_vector_per_text co"
  shows "length (fst (embed_batches_spec co m p bs)) \<le> length (concat bs)"
proof (induction bs arbitrary: p)
  case Nil
  then show ?case by simp
next
  case (Cons b bs)
  obtain r p1 where call: "co p m b = (r, p1)" by force
  show ?case
  proof (cases r)
    case (Inl e)
    obtain kept p2 where kept: "retry_each_spec co m p1 b = (kept, p2)" by force
    with retry_each_spec_length[OF assms, of m p1 b] have "length kept \<le> length b" by simp
    with call Inl kept Cons.IH[of p2] show ?thesis by (auto split: prod.splits)
  next
    case (Inr vs)
    with call assms have "length vs = length b" unfolding one_vector_per_text_def by blast
    with call Inr Cons.IH[of p1] show ?thesis by (auto split: prod.splits)
  qed
qed

text \<open>
  Claim C5, as the code has it. For a list of texts that is not empty and a positive
  \<open>max_batch_size\<close>, \<open>embed_texts\<close> returns the list that the batching strategy of the
  specification gives: the texts are split into consecutive batches, none empty and none
  longer than \<open>max_batch_size\<close>, that together are the input; the vectors of a batch that
  succeeds are appended in order; the texts of a batch that fails are retried one by one and
  those that fail again leave nothing in the output. With a provider that returns one vector
  per text, the output is no longer than the input.
\<close>

theorem embed_texts_batches:
  assumes ne: "texts \<noteq> []" and pos: "0 < max_batch_size self"
  shows "embed_texts co self texts p =
           (case embed_batches_spec co (model_name self) p
                   (batches_spec (nat (max_batch_size self)) texts) of
              (out, p') \<Rightarrow> (Inr (Some out), p'))
     \<and> concat (batches_spec (nat (max_batch_size self)) texts) = texts
     \<and> (\<forall>b \<in> set (batches_spec (nat (max_batch_size self)) texts).
            b \<noteq> [] \<and> int (length b) \<le> max_batch_size self)
     \<and> (one_vector_per_text co \<longrightarrow>
          (\<exists>out p'. embed_texts co self texts p = (Inr (Some out), p')
             \<and> length out \<le> length texts))"
proof -
  let ?bs = "batches_spec (nat (max_batch_size self)) texts"
  obtain out p' where spec: "embed_batches_spec co (model_name self) p ?bs = (out, p')" by force
  have run: "embed_texts co self texts p = (Inr (Some out), p')"
    using ne pos spec batch_loop_spec[OF pos, of 0 co texts "[]" p]
    by (simp add: embed_texts_def)
  have cat: "concat ?bs = texts"
    using pos by (simp add: batches_spec_concat)
  have sizes: "\<forall>b \<in> set ?bs. b \<noteq> [] \<and> int (length b) \<le> max_batch_size self"
    using batches_spec_sizes[of _ "nat (max_batch_size self)" texts] pos by fastforce
  have "one_vector_per_text co \<longrightarrow> length out \<le> length texts"
    using embed_batches_spec_length[of co "model_name self" p ?bs] spec cat by auto
  with run spec cat sizes show ?thesis by simp
qed

lemma cohere0_one_vector: "one_vector_per_text cohere0"
  by (auto simp: one_vector_per_text_def cohere0_def split: if_splits)

text \<open>
  Three texts in one batch; the batch fails, the second text fails again: two vectors, in
  the order of the first and the third text.
\<close>

theorem embed_texts_batches_witness:
  "map chunk_text page0_chunks \<noteq> [] \<and> 0 < max_batch_size (embedder pipeline0)
   \<and> one_vector_per_text cohere0
   \<and> embed_texts cohere0 (embedder pipeline0) (map chunk_text page0_chunks) 0
        = (Inr (Some [[47, 1], [39, 3]]), 4)
   \<and> batches_spec (nat (max_batch_size (embedder pipeline0))) (map chunk_text page0_chunks)
        = [map chunk_text page0_chunks]
   \<and> length [[47, 1], [39, 3 :: int]] \<le> length (map chunk_text page0_chunks)"
proof -
  have ne: "map chunk_text page0_chunks \<noteq> []" by (simp add: page0_chunks_def)
  have pos: "0 < max_batch_size (embedder pipeline0)" by (simp add: pipeline0_def)
  have run: "embed_texts cohere0 (embedder pipeline0) (map chunk_text page0_chunks) 0
        = (Inr (Some [[47, 1], [39, 3]]), 4)" by code_simp
  have bs: "batches_spec (nat (max_batch_size (embedder pipeline0))) (map chunk_text page0_chunks)
        = [map chunk_text page0_chunks]" by code_simp
  from embed_texts_batches[OF ne pos, of cohere0 0] cohere0_one_vector run
  have "length [[47, 1], [39, 3 :: int]] \<le> length (map chunk_text page0_chunks)" by auto
  with ne pos cohere0_one_vector run bs show ?thesis by blast
qed

text \<open>
  Claim C5 as stated, for every list of texts: for the empty list \<open>embed_texts\<close> returns
  \<open>None\<close>, which is no list of embeddings.
\<close>

theorem embed_texts_empty_counterexample:
  "embed_texts cohere0 (embedder pipeline0) [] 0 = (Inr None, 0)"
  by (simp add: embed_texts_def)

section \<open>The chunker: overlap and sliding window\<close>

lemma py_int_nonneg: "0 \<le> x \<Longrightarrow> py_int x = \<lfloor>x\<rfloor>"
  by (simp add: py_int_def)




section \<open>The chunker: a loop that does not advance\<close>

lemma abcd_sentences: "split_into_sentences ''A. B. C. D.'' = [''A.'', ''B.'', ''C.'', ''D.'']"
  by code_simp

lemma abcd_strip: "strip ''A. B. C. D.'' = ''A. B. C. D.''"
  by code_simp

lemma abcd_overlap:
  "overlap_sentences_of \<lparr>chunk_size = 2, overlap = 1 / 2\<rparr> [''A.'', ''B.'', ''C.'', ''D.''] = 2"
  by (simp add: overlap_sentences_of_def py_int_def)

lemma abcd_window: "strip (join_space (py_slice [''A.'', ''B.'', ''C.'', ''D.''] 0 2)) = ''A. B.''"
  by code_simp

lemma abcd_body:
  assumes "current_start st = 0"
  shows "chunk_text_body l \<lparr>chunk_size = 2, overlap = 1 / 2\<rparr> [''A.'', ''B.'', ''C.'', ''D.''] 2
           cid u title hpath st
         = \<lparr>current_start = 0, next_index = next_index st + 1,
            chunks = chunks st @
              [\<lparr>id' = chunk_id l cid ''A. B.'' (next_index st), content_id = cid,
                chunk_text = ''A. B.'', chunk_index = next_index st,
                token_count = int (length (split_ws ''A. B.'')), section_title = title,
                hierarchy_path = hpath, overlap_with_next = 2,
                created_at = utcnow_isoformat l (next_index st), url = u\<rparr>]\<rparr>"
  using assms by (simp add: chunk_text_body_def Let_def abcd_window)

text \<open>
  Claim C3, at its own example. For the text \<open>A. B. C. D.\<close> with a chunk size of 2 and an
  overlap fraction of one half, the overlap is \<open>int(4 * 0.5) = 2\<close> sentences: after each
  chunk the window goes back to sentence 0, and \<open>chunk_text\<close> does not return.
\<close>

theorem chunk_text_never_returns:
  "TextChunker_chunk_text l \<lparr>chunk_size = 2, overlap = 1 / 2\<rparr> ''A. B. C. D.'' cid u title hpath
     = None"
proof -
  let ?body = "chunk_text_body l \<lparr>chunk_size = 2, overlap = 1 / 2\<rparr> [''A.'', ''B.'', ''C.'', ''D.''] 2
                 cid u title hpath"
  have "while_loop (\<lambda>st. current_start st < int (length [''A.'', ''B.'', ''C.'', ''D.'']))
          ?body \<lparr>current_start = 0, next_index = 0, chunks = []\<rparr> = None"
  proof (rule while_loop_diverges[where P = "\<lambda>st. current_start st = 0"])
    show "current_start \<lparr>current_start = 0, next_index = 0, chunks = []\<rparr> = 0" by simp
  next
    fix st :: chunk_state
    assume "current_start st = 0"
    then show "current_start st < int (length [''A.'', ''B.'', ''C.'', ''D.''])
               \<and> current_start (?body st) = 0"
      by (simp add: abcd_body)
  qed
  then show ?thesis
    by (simp add: TextChunker_chunk_text_def abcd_strip abcd_sentences chunk_sentences_loop_def
        abcd_overlap)
qed

text \<open>
  Claim C8, at the same input. The text has the sentences \<open>A.\<close>, \<open>B.\<close>, \<open>C.\<close> and \<open>D.\<close>.
  After any number \<open>k\<close> of passes through the loop of \<open>chunk_text\<close> the window starts at
  sentence 0 again and the \<open>k\<close> chunks emitted all have the text \<open>A. B.\<close>: the sentences
  \<open>C.\<close> and \<open>D.\<close> are in no chunk.
\<close>

theorem chunk_text_windows_stay:
  "split_into_sentences ''A. B. C. D.'' = [''A.'', ''B.'', ''C.'', ''D.'']
   \<and> current_start
     ((chunk_text_body l \<lparr>chunk_size = 2, overlap = 1 / 2\<rparr> (split_into_sentences ''A. B. C. D.'')
         (overlap_sentences_of \<lparr>chunk_size = 2, overlap = 1 / 2\<rparr>
            (split_into_sentences ''A. B. C. D.'')) cid u title hpath ^^ k)
        \<lparr>current_start = 0, next_index = 0, chunks = []\<rparr>) = 0
   \<and> map chunk_text
       (chunks ((chunk_text_body l \<lparr>chunk_size = 2, overlap = 1 / 2\<rparr>
           (split_into_sentences ''A. B. C. D.'')
           (overlap_sentences_of \<lparr>chunk_size = 2, overlap = 1 / 2\<rparr>
              (split_into_sentences ''A. B. C. D.'')) cid u title hpath ^^ k)
          \<lparr>current_start = 0, next_index = 0, chunks = []\<rparr>)) = replicate k ''A. B.''"
proof (induction k)
  case 0
  then show ?case by (simp add: abcd_sentences)
next
  case (Suc k)
  then show ?case
    by (simp add: abcd_sentences abcd_overlap abcd_body replicate_append_same)
qed

section \<open>The chunker: when the window advances\<close>

text \<open>
  With an overlap in sentences that is not negative and smaller than the chunk size, every
  pass through the loop moves \<open>current_start\<close> forward, and \<open>chunk_text\<close> returns.
\<close>

lemma chunk_text_body_advances:
  assumes ov: "0 \<le> ov" "ov < chunk_size self"
    and st: "0 \<le> current_start st" "current_start st < int (length sentences)"
  shows "0 \<le> current_start (chunk_text_body l self sentences ov cid u title hpath st)
     \<and> current_start st < current_start (chunk_text_body l self sentences ov cid u title hpath st)
     \<and> current_start (chunk_text_body l self sentences ov cid u title hpath st)
           \<le> int (length sentences)"
  using assms by (auto simp: chunk_text_body_def Let_def min_def)

lemma chunk_sentences_loop_returns:
  assumes "0 \<le> overlap_sentences_of self sentences"
    and "overlap_sentences_of self sentences < chunk_size self"
  shows "\<exists>st. chunk_sentences_loop l self sentences cid u title hpath = Some st"
  unfolding chunk_sentences_loop_def
proof (rule while_loop_terminates
    [where P = "\<lambda>st. 0 \<le> current_start st"
       and m = "\<lambda>st. nat (int (length sentences) - current_start st)"])
  show "0 \<le> current_start \<lparr>current_start = 0, next_index = 0, chunks = []\<rparr>" by simp
next
  fix st :: chunk_state
  assume "0 \<le> current_start st" "current_start st < int (length sentences)"
  from chunk_text_body_advances[OF assms this, of l cid u title hpath]
  show "0 \<le> current_start (chunk_text_body l self sentences
            (overlap_sentences_of self sentences) cid u title hpath st)
     \<and> nat (int (length sentences) - current_start (chunk_text_body l self sentences
            (overlap_sentences_of self sentences) cid u title hpath st))
         < nat (int (length sentences) - current_start st)"
    by linarith
qed

lemma chunk_text_returns:
  assumes "0 \<le> overlap self"
    and "overlap_sentences_of self (split_into_sentences text) < chunk_size self"
  shows "\<exists>cs. TextChunker_chunk_text l self text cid u title hpath = Some cs"
proof -
  have "0 \<le> overlap_sentences_of self (split_into_sentences text)"
    using assms(1) by (simp add: overlap_sentences_of_def py_int_nonneg)
  from chunk_sentences_loop_returns[OF this assms(2), of l cid u title hpath]
  show ?thesis by (auto simp: TextChunker_chunk_text_def Let_def)
qed

text \<open>
  In that case the chunks cover the text. The windows of the chunks end at positions
  \<open>ends\<close>; the first starts at sentence 0 and each later one \<open>overlap_sentences\<close> before the
  end of the one before it. Cutting from each window what it shares with the window before
  it leaves the sentences from the end of that window to its own end, and these pieces, put
  together, are the sentences of the text.
\<close>

lemma set_join_space: "w \<in> set ws \<Longrightarrow> set w \<subseteq> set (join_space ws)"
  by (induction ws rule: join_space.induct) auto

lemma join_space_nonblank:
  assumes "ws \<noteq> []" and "\<forall>w \<in> set ws. strip w \<noteq> []"
  shows "strip (join_space ws) \<noteq> []"
proof -
  from assms(1) obtain w where w: "w \<in> set ws" by (cases ws) auto
  with assms(2) have "strip w \<noteq> []" by blast
  then obtain c where "c \<in> set w" "\<not> is_space c" by (auto simp: strip_Nil_iff)
  with set_join_space[OF w] show ?thesis by (auto simp: strip_Nil_iff)
qed

lemma py_slice_inside:
  assumes "0 \<le> a" "a \<le> b" "b \<le> int (length xs)"
  shows "py_slice xs a b = take (nat (b - a)) (drop (nat a) xs)"
  using assms by (auto simp: py_slice_def slice_bound_def Let_def min_def)

lemma take_py_slice:
  assumes "0 \<le> a" "a \<le> b" "b \<le> int (length xs)"
  shows "take (nat a) xs @ py_slice xs a b = take (nat b) xs"
proof -
  have "nat b = nat a + nat (b - a)" using assms by linarith
  then show ?thesis
    using assms by (simp add: py_slice_inside take_add)
qed

lemma split_into_sentences_nonblank: "\<forall>s \<in> set (split_into_sentences text). strip s \<noteq> []"
  by (auto simp: split_into_sentences_def strip_strip_nonempty)

lemma chunk_text_body_emits:
  assumes nonblank: "\<forall>s \<in> set sentences. strip s \<noteq> []"
    and st: "0 \<le> current_start st" "current_start st < int (length sentences)"
    and size: "0 < chunk_size self"
  shows "map chunk_text (chunks (chunk_text_body l self sentences ov cid u title hpath st))
           = map chunk_text (chunks st) @
             [strip (join_space (py_slice sentences (current_start st)
                (min (current_start st + chunk_size self) (int (length sentences)))))]
     \<and> current_start (chunk_text_body l self sentences ov cid u title hpath st)
           = (if min (current_start st + chunk_size self) (int (length sentences))
                  < int (length sentences)
              then min (current_start st + chunk_size self) (int (length sentences)) - ov
              else min (current_start st + chunk_size self) (int (length sentences)))"
proof -
  let ?e = "min (current_start st + chunk_size self) (int (length sentences))"
  let ?w = "py_slice sentences (current_start st) ?e"
  have e: "current_start st < ?e" "?e \<le> int (length sentences)" using st size by auto
  then have "?w = take (nat (?e - current_start st)) (drop (nat (current_start st)) sentences)"
    using st by (intro py_slice_inside) auto
  moreover have "drop (nat (current_start st)) sentences \<noteq> []" using st by simp
  ultimately have "?w \<noteq> []" using e by (cases "drop (nat (current_start st)) sentences") auto
  moreover have "\<forall>w \<in> set ?w. strip w \<noteq> []" using nonblank set_py_slice[of sentences] by blast
  ultimately have "strip (join_space ?w) \<noteq> []" by (rule join_space_nonblank)
  then show ?thesis by (simp add: chunk_text_body_def Let_def)
qed


lemma chunk_text_coverage:
  assumes nonblank: "\<forall>s \<in> set sentences. strip s \<noteq> []"
    and ov: "0 \<le> overlap_sentences_of self sentences"
            "overlap_sentences_of self sentences < chunk_size self"
    and run: "chunk_sentences_loop l self sentences cid u title hpath = Some st"
  shows "\<exists>ends.
           map chunk_text (chunks st)
             = map2 (\<lambda>a e. strip (join_space (py_slice sentences a e)))
                 (butlast (0 # map (\<lambda>e. e - overlap_sentences_of self sentences) ends)) ends
         \<and> concat (map2 (py_slice sentences) (butlast (0 # ends)) ends) = sentences"
proof -
  define ovl where "ovl = overlap_sentences_of self sentences"
  define n where "n = int (length sentences)"
  define W where "W = (\<lambda>a e. strip (join_space (py_slice sentences a e)))"
  define J where "J = (\<lambda>(st :: chunk_state) ends.
      map chunk_text (chunks st) = map2 W (butlast (0 # map (\<lambda>e. e - ovl) ends)) ends
    \<and> concat (map2 (py_slice sentences) (butlast (0 # ends)) ends)
          = take (nat (last (0 # ends))) sentences
    \<and> 0 \<le> last (0 # ends) \<and> last (0 # ends) \<le> n
    \<and> 0 \<le> current_start st
    \<and> (if last (0 # ends) < n
         then current_start st = last (0 # map (\<lambda>e. e - ovl) ends)
              \<and> last (0 # ends) - ovl \<le> current_start st
              \<and> current_start st \<le> last (0 # ends)
         else current_start st = n))"
  let ?body = "chunk_text_body l self sentences ovl cid u title hpath"
  have size: "0 < chunk_size self" and ovl0: "0 \<le> ovl" and ovl1: "ovl < chunk_size self"
    using ov by (simp_all add: ovl_def)
  have init: "J \<lparr>current_start = 0, next_index = 0, chunks = []\<rparr> []"
    using ov(1) by (simp add: J_def n_def ovl_def)
  have step: "\<exists>ends'. J (?body s) ends'" if inv: "J s ends" and cond: "current_start s < n"
    for s ends
  proof -
    let ?E = "last (0 # ends)"
    let ?e = "min (current_start s + chunk_size self) n"
    from inv cond have E: "?E < n" "0 \<le> ?E"
      and s: "current_start s = last (0 # map (\<lambda>e. e - ovl) ends)"
             "?E - ovl \<le> current_start s" "current_start s \<le> ?E" "0 \<le> current_start s"
      and texts: "map chunk_text (chunks s) = map2 W (butlast (0 # map (\<lambda>e. e - ovl) ends)) ends"
      and cat: "concat (map2 (py_slice sentences) (butlast (0 # ends)) ends)
                  = take (nat ?E) sentences"
      by (auto simp: J_def split: if_splits)
    have e: "?E < ?e" "?e \<le> n" using E s ovl1 by auto
    from chunk_text_body_emits[OF nonblank s(4) cond[unfolded n_def] size, of l ovl cid u title hpath]
    have emitted: "map chunk_text (chunks (?body s)) = map chunk_text (chunks s) @ [W (current_start s) ?e]"
      and next_start: "current_start (?body s) = (if ?e < n then ?e - ovl else ?e)"
      by (simp_all add: W_def n_def)
    have starts: "butlast (0 # map (\<lambda>e. e - ovl) (ends @ [?e]))
        = butlast (0 # map (\<lambda>e. e - ovl) ends) @ [current_start s]"
      using s(1) by (simp add: butlast_append)
    have bounds: "butlast (0 # (ends @ [?e])) = butlast (0 # ends) @ [?E]"
      by (simp add: butlast_append)
    have len: "length (butlast (0 # map (\<lambda>e. e - ovl) ends)) = length ends"
      "length (butlast (0 # ends)) = length ends"
      by simp_all
    have t': "map chunk_text (chunks (?body s))
        = map2 W (butlast (0 # map (\<lambda>e. e - ovl) (ends @ [?e]))) (ends @ [?e])"
      unfolding starts using emitted texts len by simp
    have "concat (map2 (py_slice sentences) (butlast (0 # (ends @ [?e]))) (ends @ [?e]))
        = take (nat ?E) sentences @ py_slice sentences ?E ?e"
      unfolding bounds using cat len by simp
    also have "\<dots> = take (nat ?e) sentences"
      using E e by (intro take_py_slice) (auto simp: n_def)
    finally have c': "concat (map2 (py_slice sentences) (butlast (0 # (ends @ [?e]))) (ends @ [?e]))
        = take (nat (last (0 # (ends @ [?e])))) sentences"
      by simp
    have "J (?body s) (ends @ [?e])"
      unfolding J_def using t' c' e E next_start s ovl0 ovl1 by auto
    then show ?thesis ..
  qed
  have "(\<exists>ends. J st ends) \<and> \<not> current_start st < n"
  proof (rule while_loop_rule[OF run[unfolded chunk_sentences_loop_def],
        where P = "\<lambda>s. \<exists>ends. J s ends", folded ovl_def n_def])
    show "\<exists>ends. J \<lparr>current_start = 0, next_index = 0, chunks = []\<rparr> ends"
      using init ..
  next
    fix s :: chunk_state
    assume "\<exists>ends. J s ends" "current_start s < n"
    then show "\<exists>ends. J (?body s) ends" using step by blast
  qed
  then obtain ends where fin: "J st ends" and stop: "\<not> current_start st < n" by blast
  then have "last (0 # ends) = n"
    by (auto simp: J_def split: if_splits)
  with fin have "map chunk_text (chunks st) = map2 W (butlast (0 # map (\<lambda>e. e - ovl) ends)) ends"
    and "concat (map2 (py_slice sentences) (butlast (0 # ends)) ends) = sentences"
    by (auto simp: J_def n_def)
  then show ?thesis unfolding W_def ovl_def by blast
qed


lemma re_split_chars: "p \<in> set (re_split pre cur s) \<Longrightarrow> set p \<subseteq> set cur \<union> set s"
proof (induction s arbitrary: pre cur)
  case Nil
  then show ?case by simp
next
  case (Cons a s)
  show ?case
  proof (cases "sentence_pattern pre a")
    case True
    with Cons.prems have "p = rev cur \<or> p \<in> set (re_split (a # pre) [] s)" by simp
    then show ?thesis using Cons.IH[of "a # pre" "[]"] by auto
  next
    case False
    with Cons.prems have "p \<in> set (re_split (a # pre) (a # cur) s)" by simp
    then show ?thesis using Cons.IH[of "a # pre" "a # cur"] by auto
  qed
qed

lemma blank_text_no_sentences:
  assumes "strip text = []"
  shows "split_into_sentences text = []"
proof -
  have "strip p = []" if "p \<in> set (re_split [] [] text)" for p
    using re_split_chars[OF that] assms by (auto simp: strip_Nil_iff)
  then show ?thesis
    by (auto simp: split_into_sentences_def filter_empty_conv)
qed

lemma chunk_text_returns_covering:
  assumes "0 \<le> overlap self"
    and "overlap_sentences_of self (split_into_sentences text) < chunk_size self"
  shows "\<exists>cs ends.
           TextChunker_chunk_text l self text cid u title hpath = Some cs
         \<and> map chunk_text cs
             = map2 (\<lambda>a e. strip (join_space (py_slice (split_into_sentences text) a e)))
                 (butlast (0 # map (\<lambda>e. e - overlap_sentences_of self (split_into_sentences text))
                                ends)) ends
         \<and> concat (map2 (py_slice (split_into_sentences text)) (butlast (0 # ends)) ends)
             = split_into_sentences text"
proof (cases "split_into_sentences text = []")
  case True
  then have "TextChunker_chunk_text l self text cid u title hpath = Some []"
    by (simp add: TextChunker_chunk_text_def)
  with True show ?thesis by (intro exI[of _ "[]"]) simp
next
  case False
  then have nonblank: "text \<noteq> []" "strip text \<noteq> []"
    using blank_text_no_sentences[of "text"] by (auto simp: strip_def lstrip_def rstrip_def)
  have ov0: "0 \<le> overlap_sentences_of self (split_into_sentences text)"
    using assms(1) by (simp add: overlap_sentences_of_def py_int_nonneg)
  from chunk_sentences_loop_returns[OF ov0 assms(2), of l cid u title hpath]
  obtain st where run: "chunk_sentences_loop l self (split_into_sentences text) cid u title hpath
      = Some st" ..
  from chunk_text_coverage[OF split_into_sentences_nonblank ov0 assms(2) run]
  obtain ends where "map chunk_text (chunks st)
             = map2 (\<lambda>a e. strip (join_space (py_slice (split_into_sentences text) a e)))
                 (butlast (0 # map (\<lambda>e. e - overlap_sentences_of self (split_into_sentences text))
                                ends)) ends
         \<and> concat (map2 (py_slice (split_into_sentences text)) (butlast (0 # ends)) ends)
             = split_into_sentences text" ..
  moreover have "TextChunker_chunk_text l self text cid u title hpath = Some (chunks st)"
    using False nonblank run by (simp add: TextChunker_chunk_text_def)
  ultimately show ?thesis by blast
qed

section \<open>The chunker: the chunks returned\<close>

lemma chunk_text_body_invariant:
  assumes "next_index st = int (length (chunks st))"
    and "map chunk_index (chunks st) = map int [0..<length (chunks st)]"
    and "\<forall>c \<in> set (chunks st). chunk_ok cid u title hpath c"
  shows "next_index (chunk_text_body l self sentences ov cid u title hpath st)
           = int (length (chunks (chunk_text_body l self sentences ov cid u title hpath st)))
     \<and> map chunk_index (chunks (chunk_text_body l self sentences ov cid u title hpath st))
           = map int [0..<length (chunks (chunk_text_body l self sentences ov cid u title hpath st))]
     \<and> (\<forall>c \<in> set (chunks (chunk_text_body l self sentences ov cid u title hpath st)).
           chunk_ok cid u title hpath c)"
proof -
  let ?txt = "strip (join_space (py_slice sentences (current_start st)
                (min (current_start st + chunk_size self) (int (length sentences)))))"
  show ?thesis
  proof (cases "?txt = []")
    case True
    then have "chunk_text_body l self sentences ov cid u title hpath st
        = st\<lparr>current_start := min (current_start st + chunk_size self) (int (length sentences))\<rparr>"
      by (simp add: chunk_text_body_def Let_def)
    with assms show ?thesis by auto
  next
    case False
    then have "strip ?txt \<noteq> []" "split_ws ?txt \<noteq> []"
      by (simp_all add: strip_strip_nonempty split_ws_nonempty)
    with False assms show ?thesis
      by (auto simp: chunk_text_body_def Let_def Suc_le_eq)
  qed
qed

lemma sliding_window_body_invariant:
  assumes words: "\<forall>w \<in> set ws. w \<noteq> [] \<and> (\<forall>c \<in> set w. \<not> is_space c)"
    and "window_index st = int (length (window_chunks st))"
    and "map chunk_index (window_chunks st) = map int [0..<length (window_chunks st)]"
    and "\<forall>c \<in> set (window_chunks st). chunk_ok cid u title hpath c"
  shows "window_index (sliding_window_body l ws per ov cid u title hpath st)
           = int (length (window_chunks (sliding_window_body l ws per ov cid u title hpath st)))
     \<and> map chunk_index (window_chunks (sliding_window_body l ws per ov cid u title hpath st))
           = map int [0..<length (window_chunks (sliding_window_body l ws per ov cid u title hpath st))]
     \<and> (\<forall>c \<in> set (window_chunks (sliding_window_body l ws per ov cid u title hpath st)).
           chunk_ok cid u title hpath c)"
proof -
  let ?cw = "py_slice ws (start_idx st) (min (start_idx st + per) (int (length ws)))"
  have good: "\<forall>w \<in> set ?cw. w \<noteq> [] \<and> (\<forall>c \<in> set w. \<not> is_space c)"
    using words set_py_slice[of ws] by blast
  show ?thesis
  proof (cases "strip (join_space ?cw) = []")
    case True
    then have "sliding_window_body l ws per ov cid u title hpath st
        = st\<lparr>start_idx := min (start_idx st + per) (int (length ws))\<rparr>"
      by (simp add: sliding_window_body_def Let_def)
    with assms show ?thesis by auto
  next
    case False
    then have "join_space ?cw \<noteq> []" by (auto simp: strip_Nil_iff)
    then have "?cw \<noteq> []" by auto
    then have one: "?cw \<noteq> []" by auto
    have "split_ws (join_space ?cw) = ?cw" using good by (rule split_ws_join)
    with False one assms show ?thesis
      by (auto simp: sliding_window_body_def Let_def Suc_le_eq)
  qed
qed

text \<open>
  Claim C10. A list of chunks that \<open>chunk_text\<close> or \<open>chunk_with_sliding_window\<close> returns has
  the chunk indices 0, 1, ..., n - 1 in this order, and each of its chunks has a text that is
  not blank, a token count that is the number of whitespace-separated words of the text and
  is at least 1, and the \<open>content_id\<close>, \<open>url\<close>, \<open>section_title\<close> and \<open>hierarchy_path\<close> of the
  call.
\<close>

theorem chunk_lists_well_formed:
  "(TextChunker_chunk_text l self text cid u title hpath = Some cs \<longrightarrow>
      map chunk_index cs = map int [0..<length cs]
      \<and> (\<forall>c \<in> set cs. chunk_ok cid u title hpath c))
   \<and> (chunk_with_sliding_window l self text cid u title hpath = Some ws \<longrightarrow>
      map chunk_index ws = map int [0..<length ws]
      \<and> (\<forall>c \<in> set ws. chunk_ok cid u title hpath c))"
proof (intro conjI impI)
  assume run: "TextChunker_chunk_text l self text cid u title hpath = Some cs"
  have "map chunk_index cs = map int [0..<length cs]
      \<and> (\<forall>c \<in> set cs. chunk_ok cid u title hpath c)"
  proof (cases "text = [] \<or> length (strip text) = 0 \<or> split_into_sentences text = []")
    case True
    with run have "cs = []" by (auto simp: TextChunker_chunk_text_def Let_def split: if_splits)
    then show ?thesis by simp
  next
    case False
    with run obtain st where
      loop: "chunk_sentences_loop l self (split_into_sentences text) cid u title hpath = Some st"
      and cs: "cs = chunks st"
      by (auto simp: TextChunker_chunk_text_def Let_def split: if_splits)
    let ?P = "\<lambda>st :: chunk_state. next_index st = int (length (chunks st))
        \<and> map chunk_index (chunks st) = map int [0..<length (chunks st)]
        \<and> (\<forall>c \<in> set (chunks st). chunk_ok cid u title hpath c)"
    have "?P st \<and> \<not> current_start st < int (length (split_into_sentences text))"
    proof (rule while_loop_rule[OF loop[unfolded chunk_sentences_loop_def], where P = ?P])
      show "?P \<lparr>current_start = 0, next_index = 0, chunks = []\<rparr>" by simp
    next
      fix s assume "?P s"
      then show "?P (chunk_text_body l self (split_into_sentences text)
                 (overlap_sentences_of self (split_into_sentences text)) cid u title hpath s)"
        using chunk_text_body_invariant[of s cid u title hpath] by blast
    qed
    with cs show ?thesis by blast
  qed
  then show "map chunk_index cs = map int [0..<length cs]"
    and "\<forall>c \<in> set cs. chunk_ok cid u title hpath c" by blast+
next
  assume run: "chunk_with_sliding_window l self text cid u title hpath = Some ws"
  have "map chunk_index ws = map int [0..<length ws]
      \<and> (\<forall>c \<in> set ws. chunk_ok cid u title hpath c)"
  proof (cases "text = [] \<or> length (strip text) = 0 \<or> length (split_ws text) = 0")
    case True
    with run have "ws = []" by (auto simp: chunk_with_sliding_window_def Let_def split: if_splits)
    then show ?thesis by simp
  next
    case False
    let ?ov = "py_int (of_int (chunk_size self) * overlap self)"
    from False run obtain st where
      loop: "while_loop (\<lambda>st. start_idx st < int (length (split_ws text)))
               (sliding_window_body l (split_ws text) (chunk_size self) ?ov cid u title hpath)
               \<lparr>start_idx = 0, window_index = 0, window_chunks = []\<rparr> = Some st"
      and ws: "ws = window_chunks st"
      by (auto simp: chunk_with_sliding_window_def Let_def split: if_splits)
    have words: "\<forall>w \<in> set (split_ws text). w \<noteq> [] \<and> (\<forall>c \<in> set w. \<not> is_space c)"
      using split_ws_words by blast
    let ?P = "\<lambda>st :: window_state. window_index st = int (length (window_chunks st))
        \<and> map chunk_index (window_chunks st) = map int [0..<length (window_chunks st)]
        \<and> (\<forall>c \<in> set (window_chunks st). chunk_ok cid u title hpath c)"
    have "?P st \<and> \<not> start_idx st < int (length (split_ws text))"
    proof (rule while_loop_rule[OF loop, where P = ?P])
      show "?P \<lparr>start_idx = 0, window_index = 0, window_chunks = []\<rparr>" by simp
    next
      fix s assume "?P s"
      then show "?P (sliding_window_body l (split_ws text) (chunk_size self) ?ov cid u title hpath s)"
        using sliding_window_body_invariant[OF words, of s cid u title hpath] by blast
    qed
    with ws show ?thesis by blast
  qed
  then show "map chunk_index ws = map int [0..<length ws]"
    and "\<forall>c \<in> set ws. chunk_ok cid u title hpath c" by blast+
qed


text \<open>
  A page of four sentences and fifteen words with a chunk size of 2: three chunks of
  sentences, eight chunks of words.
\<close>

theorem chunk_lists_well_formed_witness:
  "TextChunker_chunk_text lib0 \<lparr>chunk_size = 2, overlap = 1 / 4\<rparr> page0
      ''content_9e107d9d372b'' url0 (Some ''Intro'') ''docs/intro'' = Some page0_chunks
   \<and> map chunk_index page0_chunks = map int [0..<3]
   \<and> list_all (\<lambda>c. 1 \<le> token_count c \<and> url c = url0) page0_chunks
   \<and> (\<exists>ws. chunk_with_sliding_window lib0 \<lparr>chunk_size = 2, overlap = 1 / 4\<rparr> page0
            ''content_9e107d9d372b'' url0 (Some ''Intro'') ''docs/intro'' = Some ws
         \<and> length ws = 8
         \<and> map chunk_index ws = map int [0..<8]
         \<and> list_all (\<lambda>c. 1 \<le> token_count c \<and> url c = url0) ws)"
proof -
  have ch: "TextChunker_chunk_text lib0 \<lparr>chunk_size = 2, overlap = 1 / 4\<rparr> page0
      ''content_9e107d9d372b'' url0 (Some ''Intro'') ''docs/intro'' = Some page0_chunks"
    by code_simp
  have "map_option length (chunk_with_sliding_window lib0 \<lparr>chunk_size = 2, overlap = 1 / 4\<rparr> page0
            ''content_9e107d9d372b'' url0 (Some ''Intro'') ''docs/intro'') = Some 8"
    by code_simp
  then obtain ws where sw: "chunk_with_sliding_window lib0 \<lparr>chunk_size = 2, overlap = 1 / 4\<rparr> page0
            ''content_9e107d9d372b'' url0 (Some ''Intro'') ''docs/intro'' = Some ws"
    and len: "length ws = 8"
    by auto
  have len3: "length page0_chunks = 3" by (simp add: page0_chunks_def)
  note wf = chunk_lists_well_formed[of lib0 "\<lparr>chunk_size = 2, overlap = 1 / 4\<rparr>" page0
      "''content_9e107d9d372b''" url0 "Some ''Intro''" "''docs/intro''" page0_chunks ws]
  from wf ch len3 have a: "map chunk_index page0_chunks = map int [0..<3]
      \<and> list_all (\<lambda>c. 1 \<le> token_count c \<and> url c = url0) page0_chunks"
    by (auto simp: list_all_iff)
  from wf sw len have b: "map chunk_index ws = map int [0..<8]
      \<and> list_all (\<lambda>c. 1 \<le> token_count c \<and> url c = url0) ws"
    by (auto simp: list_all_iff)
  from ch a sw len b show ?thesis by blast
qed

section \<open>The validator: the dimension that counts as valid\<close>

lemma cohere768_batch:
  "embed_texts cohere768 \<lparr>model_name = ''embed-multilingual-v2.0'', max_batch_size = 96\<rparr>
     sample_texts 0
   = (Inr (Some [replicate 768 0, replicate 768 0, replicate 768 0, replicate 768 0]), 1)"
  by (simp add: embed_texts_def sample_texts_def batch_loop.simps py_slice_def slice_bound_def
      cohere768_def)

text \<open>
  Claim C4, where the code departs from it. The embedder declares 768 dimensions in
  \<open>get_model_info\<close>. With a provider that returns vectors of 768 numbers for the four sample
  texts, \<open>validate_embedding_quality\<close> observes 768 dimensions and still reports
  \<open>is_valid = False\<close>, because it compares with the constant 1024;
  \<open>run_comprehensive_validation\<close> then ends with the status \<open>failed\<close>.
\<close>

theorem validation_rejects_declared_dimensions:
  "Embedder_init (Some ''key'') = Inr \<lparr>model_name = ''embed-multilingual-v2.0'', max_batch_size = 96\<rparr>
   \<and> info_dimensions (get_model_info \<lparr>model_name = ''embed-multilingual-v2.0'', max_batch_size = 96\<rparr>)
       = 768
   \<and> validate_embedding_quality cohere768 statistics0
         \<lparr>model_name = ''embed-multilingual-v2.0'', max_batch_size = 96\<rparr> sample_texts 0
       = (Quality \<lparr>embedding_count = 4, dimensions = 768, statistics = (), is_valid = False\<rparr>, 1)
   \<and> status_of (fst (run_comprehensive_validation lib0 cohere768 statistics0 probe0
         \<lparr>model_name = ''embed-multilingual-v2.0'', max_batch_size = 96\<rparr> 0)) = ''failed''"
proof -
  have q: "validate_embedding_quality cohere768 statistics0
         \<lparr>model_name = ''embed-multilingual-v2.0'', max_batch_size = 96\<rparr> sample_texts 0
       = (Quality \<lparr>embedding_count = 4, dimensions = 768, statistics = (), is_valid = False\<rparr>, 1)"
    by (simp add: validate_embedding_quality_def cohere768_batch array_dimensions_def statistics0_def)
      (simp add: sample_texts_def)
  have "status_of (fst (run_comprehensive_validation lib0 cohere768 statistics0 probe0
         \<lparr>model_name = ''embed-multilingual-v2.0'', max_batch_size = 96\<rparr> 0)) = ''failed''"
    by (simp add: run_comprehensive_validation_def sample_retrieval_def probe0_def q get_is_valid_def
        status_of_def)
  with q show ?thesis by (simp add: Embedder_init_def get_model_info_def)
qed

section \<open>The answer endpoint: no context found\<close>







end
